theory Spec2Isabelle
  imports Main "HOL-Library.Sublist"
begin

section \<open>Python strings\<close>

text \<open>
  A Python \<open>str\<close> is modelled as a \<open>string\<close> holding its UTF-8 encoding. The
  separators the script works with (\<open>/\<close>, \<open>-\<close>, \<open>.\<close>) are ASCII and never occur
  inside a multi-byte sequence, so splitting and searching agree with Python's
  operations on code points.
\<close>

text \<open>
  \<open>str.replace(old, new)\<close>: every non-overlapping occurrence of \<open>old\<close>, found
  scanning from the left, is replaced. With an empty \<open>old\<close> Python inserts \<open>new\<close>
  before every character and at the end; a character starts at every byte that
  is not a continuation byte.
\<close>

definition is_continuation :: "char \<Rightarrow> bool" where
  "is_continuation c \<longleftrightarrow> 0x80 \<le> (of_char c :: nat) \<and> (of_char c :: nat) \<le> 0xBF"

function replace_scan :: "string \<Rightarrow> string \<Rightarrow> string \<Rightarrow> string" where
  "replace_scan old new [] = []"
| "replace_scan old new (x # xs) =
     (if old \<noteq> [] \<and> prefix old (x # xs)
      then new @ replace_scan old new (drop (length old) (x # xs))
      else x # replace_scan old new xs)"
  by pat_completeness auto
termination
  by (relation "measure (\<lambda>(old, new, s). length s)") auto

definition py_replace :: "string \<Rightarrow> string \<Rightarrow> string \<Rightarrow> string" where
  "py_replace s old new =
     (if old = []
      then concat (map (\<lambda>ch. if is_continuation ch then [ch] else new @ [ch]) s) @ new
      else replace_scan old new s)"

text \<open>\<open>old in s\<close>: the substring test, scanning the start positions from the left.\<close>

fun occurs_in :: "string \<Rightarrow> string \<Rightarrow> bool" where
  "occurs_in old [] = (old = [])"
| "occurs_in old (x # xs) = (prefix old (x # xs) \<or> occurs_in old xs)"

text \<open>\<open>s.split(sep)\<close> for a separator of one character.\<close>

fun split_on :: "char \<Rightarrow> string \<Rightarrow> string list" where
  "split_on sep [] = [[]]"
| "split_on sep (x # xs) =
     (if x = sep then [] # split_on sep xs
      else case split_on sep xs of
             [] \<Rightarrow> [[x]]
           | w # ws \<Rightarrow> (x # w) # ws)"

section \<open>Paths and directories\<close>

text \<open>
  \<open>os.path.basename\<close> and \<open>os.path.dirname\<close> of \<open>posixpath\<close>: the path is cut after
  its last slash; \<open>dirname\<close> strips the trailing slashes of the head unless the head
  consists of slashes only.
\<close>

definition basename :: "string \<Rightarrow> string" where
  "basename p = rev (takeWhile (\<lambda>c. c \<noteq> CHR ''/'') (rev p))"

definition rstrip_slash :: "string \<Rightarrow> string" where
  "rstrip_slash s = rev (dropWhile (\<lambda>c. c = CHR ''/'') (rev s))"

definition dirname :: "string \<Rightarrow> string" where
  "dirname p =
     (let head = rev (dropWhile (\<lambda>c. c \<noteq> CHR ''/'') (rev p))
      in if head \<noteq> [] \<and> head \<noteq> replicate (length head) (CHR ''/'')
         then rstrip_slash head else head)"

text \<open>\<open>os.path.join(a, b)\<close> with two arguments.\<close>

definition path_join :: "string \<Rightarrow> string \<Rightarrow> string" where
  "path_join a b =
     (if b \<noteq> [] \<and> hd b = CHR ''/'' then b
      else if a = [] \<or> last a = CHR ''/'' then a @ b
      else a @ ''/'' @ b)"

text \<open>Python's \<open>a or b\<close> on strings: the empty string is false.\<close>

definition str_or :: "string \<Rightarrow> string \<Rightarrow> string" where
  "str_or a b = (if a \<noteq> [] then a else b)"

text \<open>
  The directories \<open>os.makedirs\<close> walks through for a path: every non-empty prefix
  that ends before a slash or at the end of the path, shortest first.
\<close>

fun path_prefixes :: "string \<Rightarrow> string \<Rightarrow> string list" where
  "path_prefixes acc [] = (if acc \<noteq> [] \<and> last acc \<noteq> CHR ''/'' then [acc] else [])"
| "path_prefixes acc (c # cs) =
     (if c = CHR ''/'' \<and> acc \<noteq> [] \<and> last acc \<noteq> CHR ''/'' then [acc] else [])
     @ path_prefixes (acc @ [c]) cs"

section \<open>Errors and the outside world\<close>

datatype py_error =
    FileNotFoundError
  | FileExistsError
  | IsADirectoryError
  | NotADirectoryError
  | UnicodeDecodeError
  | KeyError string
  | RasterError

text \<open>
  The file system the script sees: the regular files with their bytes, the
  directories, and a log of the paths whose bytes were read, oldest first.
  Paths are compared as strings.
\<close>

record world =
  files :: "string \<rightharpoonup> string"
  dirs :: "string set"
  read_log :: "string list"

text \<open>
  The directories above a path, and the directories that are always there: the
  working directory and the root, however they are spelled (\<open>''\<close>, \<open>.\<close>, \<open>./\<close>,
  \<open>/\<close>).
\<close>

definition parent_dirs :: "string \<Rightarrow> string list" where
  "parent_dirs path = filter (\<lambda>p. p \<noteq> path) (path_prefixes [] path)"

definition standing_directory :: "string \<Rightarrow> bool" where
  "standing_directory d \<longleftrightarrow> list_all (\<lambda>c. c = [] \<or> c = ''.'') (split_on (CHR ''/'') d)"

text \<open>
  Decoding with \<open>encoding="utf-8"\<close>: the bytes must be well-formed UTF-8 (no
  overlong forms, no surrogates, nothing above U+10FFFF). \<open>utf8_scan need lo hi\<close>
  expects \<open>need\<close> more continuation bytes, the next one between \<open>lo\<close> and \<open>hi\<close>.
\<close>

fun utf8_scan :: "nat \<Rightarrow> nat \<Rightarrow> nat \<Rightarrow> string \<Rightarrow> bool" where
  "utf8_scan need lo hi [] = (need = 0)"
| "utf8_scan need lo hi (c # cs) =
     (let b = (of_char c :: nat) in
      if need = 0 then
        (if b < 0x80 then utf8_scan 0 0x80 0xBF cs
         else if 0xC2 \<le> b \<and> b \<le> 0xDF then utf8_scan 1 0x80 0xBF cs
         else if b = 0xE0 then utf8_scan 2 0xA0 0xBF cs
         else if b = 0xED then utf8_scan 2 0x80 0x9F cs
         else if 0xE1 \<le> b \<and> b \<le> 0xEF then utf8_scan 2 0x80 0xBF cs
         else if b = 0xF0 then utf8_scan 3 0x90 0xBF cs
         else if 0xF1 \<le> b \<and> b \<le> 0xF3 then utf8_scan 3 0x80 0xBF cs
         else if b = 0xF4 then utf8_scan 3 0x80 0x8F cs
         else False)
      else lo \<le> b \<and> b \<le> hi \<and> utf8_scan (need - 1) 0x80 0xBF cs)"

definition utf8_valid :: "string \<Rightarrow> bool" where
  "utf8_valid bytes = utf8_scan 0 0x80 0xBF bytes"

text \<open>Text mode reads \<open>\r\n\<close> and a lone \<open>\r\<close> as \<open>\n\<close>.\<close>

fun universal_newlines :: "string \<Rightarrow> string" where
  "universal_newlines [] = []"
| "universal_newlines [c] = [if c = CHR 0x0D then CHR 0x0A else c]"
| "universal_newlines (c # d # cs) =
     (if c = CHR 0x0D \<and> d = CHR 0x0A then CHR 0x0A # universal_newlines cs
      else if c = CHR 0x0D then CHR 0x0A # universal_newlines (d # cs)
      else c # universal_newlines (d # cs))"

text \<open>
  \<open>open(path, "r", encoding="utf-8").read()\<close>. The bytes of the file are read and
  then decoded: a file that is not UTF-8 has been read when \<open>UnicodeDecodeError\<close>
  is raised. An exception leaves the state as it was when it was raised, so every
  operation returns its outcome together with the state.
\<close>

definition read_text :: "string \<Rightarrow> world \<Rightarrow> (py_error + string) \<times> world" where
  "read_text path w =
     (if path \<in> dirs w then (Inl IsADirectoryError, w)
      else if list_ex (\<lambda>p. files w p \<noteq> None) (parent_dirs path)
        then (Inl NotADirectoryError, w)
      else case files w path of
             None \<Rightarrow> (Inl FileNotFoundError, w)
           | Some bytes \<Rightarrow>
               (let w' = w\<lparr>read_log := read_log w @ [path]\<rparr>
                in if utf8_valid bytes then (Inr (universal_newlines bytes), w')
                   else (Inl UnicodeDecodeError, w')))"

section \<open>The image generator\<close>

record GenImages =
  svg_src :: string
  svg_cache :: "string option"

definition init_GenImages :: "string \<Rightarrow> GenImages" where
  "init_GenImages src = \<lparr>svg_src = src, svg_cache = None\<rparr>"

definition get_svg :: "GenImages \<Rightarrow> world \<Rightarrow> (py_error + string) \<times> GenImages \<times> world" where
  "get_svg self w =
     (case svg_cache self of
        None \<Rightarrow>
          (case read_text (svg_src self) w of
             (Inl e, w') \<Rightarrow> (Inl e, self, w')
           | (Inr content, w') \<Rightarrow> (Inr content, self\<lparr>svg_cache := Some content\<rparr>, w'))
      | Some cached \<Rightarrow> (Inr cached, self, w))"

definition replace_colors ::
  "GenImages \<Rightarrow> string \<Rightarrow> string \<Rightarrow> world \<Rightarrow> (py_error + string) \<times> GenImages \<times> world" where
  "replace_colors self color original_color w =
     (case get_svg self w of
        (Inl e, self', w') \<Rightarrow> (Inl e, self', w')
      | (Inr svg, self', w') \<Rightarrow> (Inr (py_replace svg original_color color), self', w'))"

text \<open>The default value of the parameter \<open>original_color\<close>.\<close>

definition default_original_color :: string where
  "default_original_color = ''#0063be''"

section \<open>Directories and files\<close>

text \<open>
  \<open>os.makedirs(name, exist_ok=True)\<close>: the empty path is refused (\<open>mkdir('')\<close>
  fails with \<open>FileNotFoundError\<close>), a regular file in the way is an error, and
  otherwise every missing directory on the way is created; directories that
  exist already are accepted.
\<close>

definition makedirs_exist_ok :: "string \<Rightarrow> world \<Rightarrow> (py_error + unit) \<times> world" where
  "makedirs_exist_ok name w =
     (if name = [] then (Inl FileNotFoundError, w)
      else if files w name \<noteq> None then (Inl FileExistsError, w)
      else if list_ex (\<lambda>p. files w p \<noteq> None) (path_prefixes [] name)
        then (Inl NotADirectoryError, w)
      else (Inr (), w\<lparr>dirs := dirs w \<union> set (path_prefixes [] name)\<rparr>))"

text \<open>
  \<open>open(path, "w").write(data)\<close>: the directory of the path must exist and no
  regular file may stand where a directory is needed; an existing file is
  replaced.
\<close>

definition write_file :: "string \<Rightarrow> string \<Rightarrow> world \<Rightarrow> (py_error + unit) \<times> world" where
  "write_file path data w =
     (if path \<in> dirs w then (Inl IsADirectoryError, w)
      else if list_ex (\<lambda>p. files w p \<noteq> None) (parent_dirs path)
        then (Inl NotADirectoryError, w)
      else if \<not> standing_directory (dirname path) \<and> dirname path \<notin> dirs w
        then (Inl FileNotFoundError, w)
      else (Inr (), w\<lparr>files := (files w)(path \<mapsto> data)\<rparr>))"

section \<open>Saving an image\<close>

text \<open>
  The rasterizer \<open>cairosvg.svg2png(bytestring, output_width, scale, background_color)\<close>
  is an external library: it is a parameter of the model, a function of its
  arguments that returns the image or fails.
\<close>

type_synonym rasterizer = "string \<Rightarrow> int \<Rightarrow> int \<Rightarrow> string option \<Rightarrow> py_error + string"

definition save ::
  "rasterizer \<Rightarrow> GenImages \<Rightarrow> string \<Rightarrow> string \<Rightarrow> int \<Rightarrow> string \<Rightarrow> string option \<Rightarrow> world
     \<Rightarrow> (py_error + unit) \<times> GenImages \<times> world" where
  "save svg2png self foreground_color output output_width ext background_color w =
     (case makedirs_exist_ok (str_or (dirname output) (dirname output)) w of
        (Inl e, w1) \<Rightarrow> (Inl e, self, w1)
      | (Inr u, w1) \<Rightarrow>
          (case replace_colors self foreground_color default_original_color w1 of
             (Inl e, self2, w2) \<Rightarrow> (Inl e, self2, w2)
           | (Inr svg, self2, w2) \<Rightarrow>
               (case svg2png svg output_width 1 background_color of
                  Inl e \<Rightarrow> (Inl e, self2, w2)
                | Inr png_data \<Rightarrow>
                    (let output_path = output @ ''.'' @ ext in
                     case write_file output_path png_data w2 of
                       (Inl e, w3) \<Rightarrow> (Inl e, self2, w3)
                     | (Inr u', w3) \<Rightarrow> (Inr (), self2, w3)))))"

text \<open>
  Any sequence of method calls on one instance, whatever their outcomes:
  a caller may catch an exception and go on using the instance.
\<close>

datatype call =
    Call_get_svg
  | Call_replace_colors string string
  | Call_save string string int string "string option"

fun perform :: "rasterizer \<Rightarrow> call \<Rightarrow> GenImages \<Rightarrow> world \<Rightarrow> GenImages \<times> world" where
  "perform svg2png Call_get_svg self w = snd (get_svg self w)"
| "perform svg2png (Call_replace_colors c orig) self w = snd (replace_colors self c orig w)"
| "perform svg2png (Call_save fg output width ext bg) self w =
     snd (save svg2png self fg output width ext bg w)"

fun run_calls :: "rasterizer \<Rightarrow> call list \<Rightarrow> GenImages \<Rightarrow> world \<Rightarrow> GenImages \<times> world" where
  "run_calls svg2png [] self w = (self, w)"
| "run_calls svg2png (c # cs) self w =
     (case perform svg2png c self w of (self', w') \<Rightarrow> run_calls svg2png cs self' w')"

section \<open>The Markdown report\<close>

definition nl :: string where
  "nl = [CHR 0x0A]"

definition base_url :: string where
  "base_url = ''https://github.com/unexpo-poz/brand/blob/main/logo/icon/''"

definition readme_header :: string where
  \<open>readme_header =
     ''<h1 align="center">'' @ nl @
     ''    <a href="http://www.poz.unexpo.edu.ve"><img src="https://github.com/unexpo-poz/brand/blob/main/logo/standar/primary-2048.png" width="175px" alt="UNEXPO"></a>'' @ nl @
     ''</h1>'' @ nl @
     '' '' @ nl @
     ''<h3 align="center">La Universidad Tecnica del Estado Venezolano.</h3>'' @ nl @
     nl @
     nl @
     ''[Regresar al directorio raiz](https://github.com/unexpo-poz/brand)'' @ nl @
     nl @
     ''## Logos'' @ nl @
     nl @
     ''### Nota '' @ nl @
     ''Si algun logo no se visualiza correctamente, intenta cambiar el tema de Github de claro a oscuro o viceversa.'' @ nl @
     nl @
     ''| Vista | Tama'' @ [CHR 0xC3, CHR 0xB1] @ ''o | Uso |'' @ nl @
     ''|-------|--------|-----|'' @ nl\<close>

text \<open>One pass of the loop over \<open>image_files\<close>: the text appended for one file.\<close>

definition readme_row :: "string \<Rightarrow> string" where
  "readme_row image_file =
     (let file_name = basename image_file;
          size' = hd (split_on (CHR ''.'') (last (split_on (CHR ''-'') file_name)));
          file_url = base_url @ file_name @ ''?raw=true''
      in ''|<img src='' @ [CHR 0x27] @ file_url @ [CHR 0x27] @ '' width='' @ [CHR 0x27]
         @ ''64'' @ [CHR 0x27] @ '' alt='' @ [CHR 0x27, CHR 0x27] @ ''/> | '' @ size'
         @ ''px | '' @ [CHR 0xE2, CHR 0x9C, CHR 0x85] @ '' | ['' @ file_name
         @ ''](https://github.com/unexpo-poz/brand/blob/main/logo/icon/'' @ file_name
         @ '') |'' @ nl)"

fun readme_loop :: "string \<Rightarrow> string list \<Rightarrow> string" where
  "readme_loop content [] = content"
| "readme_loop content (image_file # rest) =
     readme_loop (content @ readme_row image_file) rest"

definition readme_content :: "string list \<Rightarrow> string" where
  "readme_content image_files = readme_loop readme_header image_files"

definition write_readme :: "string \<Rightarrow> string list \<Rightarrow> world \<Rightarrow> (py_error + unit) \<times> world" where
  "write_readme directory image_files w =
     (let content = readme_content image_files;
          readme_path = path_join directory ''README.md''
      in write_file readme_path content w)"

text \<open>
  The report as the specification words it: the size label is the part of the
  basename after its last \<open>-\<close> and before the first \<open>.\<close> that follows, and the URL
  is the base URL followed by the basename.
\<close>

definition after_last_dash :: "string \<Rightarrow> string" where
  "after_last_dash s = rev (takeWhile (\<lambda>c. c \<noteq> CHR ''-'') (rev s))"

definition spec_size_label :: "string \<Rightarrow> string" where
  "spec_size_label file_name = takeWhile (\<lambda>c. c \<noteq> CHR ''.'') (after_last_dash file_name)"

definition spec_row :: "string \<Rightarrow> string \<Rightarrow> string \<Rightarrow> string" where
  "spec_row file_name size_label url =
     ''|<img src='' @ [CHR 0x27] @ url @ ''?raw=true'' @ [CHR 0x27] @ '' width='' @ [CHR 0x27]
     @ ''64'' @ [CHR 0x27] @ '' alt='' @ [CHR 0x27, CHR 0x27] @ ''/> | '' @ size_label
     @ ''px | '' @ [CHR 0xE2, CHR 0x9C, CHR 0x85] @ '' | ['' @ file_name
     @ '']('' @ url @ '') |'' @ nl"

section \<open>The batch of logos\<close>

text \<open>\<open>str(n)\<close> of an integer, as the f-strings format the size.\<close>

fun str_nat :: "nat \<Rightarrow> string" where
  "str_nat n =
     (if n < 10 then [''0123456789'' ! n]
      else str_nat (n div 10) @ [''0123456789'' ! (n mod 10)])"

declare str_nat.simps [simp del]

definition str_int :: "int \<Rightarrow> string" where
  "str_int i = (if i < 0 then CHR ''-'' # str_nat (nat (- i)) else str_nat (nat i))"

definition COLOR_MAPPING :: "string \<rightharpoonup> string" where
  "COLOR_MAPPING = map_of
     [(''#FFF'', ''white''),
      (''#000'', ''black''),
      (''#0063BE'', ''primary''),
      (''#3E78B2'', ''secondary''),
      (''#454647'', ''dark''),
      (''#EBEBEB'', ''light'')]"

definition colors :: "string list" where
  "colors = [''#454647'', ''#EBEBEB'', ''#FFF'', ''#000'', ''#0063BE'', ''#3E78B2'']"

definition sizes :: "int list" where
  "sizes = [16, 32, 64, 100, 128, 512, 1024, 2048]"

text \<open>
  The body of the inner loop for one color and one size. \<open>generated_files\<close> is the
  list built so far; an exception of \<open>save\<close> ends the run.
\<close>

definition logo_body ::
  "rasterizer \<Rightarrow> string \<Rightarrow> string \<Rightarrow> int \<Rightarrow> string list \<Rightarrow> GenImages \<Rightarrow> world
     \<Rightarrow> (py_error + string list) \<times> GenImages \<times> world" where
  "logo_body svg2png color color_type size' generated_files gen w =
     (case (if size' \<le> 128 \<and> color = ''#0063BE''
            then (let output_path = ''logo/favicon/favicon-'' @ str_int size' in
                  case save svg2png gen color output_path size' ''png'' None w of
                    (Inl e, gen', w') \<Rightarrow> (Inl e, gen', w')
                  | (Inr u, gen', w') \<Rightarrow>
                      (Inr (generated_files @ [output_path @ ''.png'']), gen', w'))
            else (Inr generated_files, gen, w)) of
        (Inl e, gen1, w1) \<Rightarrow> (Inl e, gen1, w1)
      | (Inr generated1, gen1, w1) \<Rightarrow>
          (if size' \<ge> 512
           then (let output_path = ''logo/standar/'' @ color_type @ ''-'' @ str_int size' in
                 case save svg2png gen1 color output_path size' ''png'' None w1 of
                   (Inl e, gen', w') \<Rightarrow> (Inl e, gen', w')
                 | (Inr u, gen', w') \<Rightarrow>
                     (Inr (generated1 @ [output_path @ ''.png'']), gen', w'))
           else (Inr generated1, gen1, w1)))"

fun size_loop ::
  "rasterizer \<Rightarrow> string \<Rightarrow> string \<Rightarrow> int list \<Rightarrow> string list \<Rightarrow> GenImages \<Rightarrow> world
     \<Rightarrow> (py_error + string list) \<times> GenImages \<times> world" where
  "size_loop svg2png color color_type [] generated_files gen w = (Inr generated_files, gen, w)"
| "size_loop svg2png color color_type (size' # rest) generated_files gen w =
     (case logo_body svg2png color color_type size' generated_files gen w of
        (Inl e, gen', w') \<Rightarrow> (Inl e, gen', w')
      | (Inr generated', gen', w') \<Rightarrow>
          size_loop svg2png color color_type rest generated' gen' w')"

text \<open>
  The outer loop, with the mapping and the two lists as parameters; the lookup
  \<open>COLOR_MAPPING[color]\<close> raises \<open>KeyError\<close> for a color that has no entry.
\<close>

fun color_loop ::
  "rasterizer \<Rightarrow> (string \<rightharpoonup> string) \<Rightarrow> string list \<Rightarrow> int list \<Rightarrow> string list
     \<Rightarrow> GenImages \<Rightarrow> world \<Rightarrow> (py_error + string list) \<times> GenImages \<times> world" where
  "color_loop svg2png mapping [] szs generated_files gen w = (Inr generated_files, gen, w)"
| "color_loop svg2png mapping (color # rest) szs generated_files gen w =
     (case mapping color of
        None \<Rightarrow> (Inl (KeyError color), gen, w)
      | Some color_type \<Rightarrow>
          (case size_loop svg2png color color_type szs generated_files gen w of
             (Inl e, gen', w') \<Rightarrow> (Inl e, gen', w')
           | (Inr generated', gen', w') \<Rightarrow>
               color_loop svg2png mapping rest szs generated' gen' w'))"

definition generate_logos ::
  "rasterizer \<Rightarrow> GenImages \<Rightarrow> world \<Rightarrow> (py_error + string list) \<times> GenImages \<times> world" where
  "generate_logos svg2png gen w = color_loop svg2png COLOR_MAPPING colors sizes [] gen w"

text \<open>
  The paths one pass of the body appends for a color and a size, read off the two
  conditionals of the body.
\<close>

definition pair_paths :: "string \<Rightarrow> string \<Rightarrow> int \<Rightarrow> string list" where
  "pair_paths color color_type size' =
     (if size' \<le> 128 \<and> color = ''#0063BE''
      then [''logo/favicon/favicon-'' @ str_int size' @ ''.png''] else [])
     @ (if size' \<ge> 512
        then [''logo/standar/'' @ color_type @ ''-'' @ str_int size' @ ''.png''] else [])"

text \<open>
  Every path the batch appends, in the order of the two loops, together with the
  position of its color in \<open>colors\<close> and the position of its size in \<open>sizes\<close>.
\<close>

definition emissions :: "(nat \<times> nat \<times> string) list" where
  "emissions =
     concat (map (\<lambda>(i, color).
        concat (map (\<lambda>(j, sz). map (\<lambda>p. (i, j, p))
                                    (pair_paths color (the (COLOR_MAPPING color)) sz))
                    (enumerate 0 sizes)))
        (enumerate 0 colors))"

text \<open>Color-major, size-minor: an earlier color, or the same color and an earlier size.\<close>

definition color_major :: "nat \<times> nat \<times> string \<Rightarrow> nat \<times> nat \<times> string \<Rightarrow> bool" where
  "color_major a b \<longleftrightarrow> fst a < fst b \<or> (fst a = fst b \<and> fst (snd a) < fst (snd b))"

section \<open>Worlds in which the batch can run\<close>

text \<open>
  Nothing is in the way of the output: no regular file stands where the batch
  creates its directories, and no directory has the name of a PNG file.
\<close>

definition unobstructed :: "world \<Rightarrow> bool" where
  "unobstructed w \<longleftrightarrow>
     files w ''logo'' = None \<and> files w ''logo/favicon'' = None
     \<and> files w ''logo/standar'' = None \<and> (\<forall>p \<in> dirs w. \<not> suffix ''.png'' p)"

text \<open>The document is cached already, or its file can be read and decoded.\<close>

definition document_available :: "GenImages \<Rightarrow> world \<Rightarrow> bool" where
  "document_available gen w \<longleftrightarrow>
     svg_cache gen \<noteq> None
     \<or> (svg_src gen \<notin> dirs w
        \<and> \<not> list_ex (\<lambda>p. files w p \<noteq> None) (parent_dirs (svg_src gen))
        \<and> (\<exists>bytes. files w (svg_src gen) = Some bytes \<and> utf8_valid bytes))"

text \<open>The rasterizer accepts every document at scale 1.\<close>

definition always_rasterizes :: "rasterizer \<Rightarrow> bool" where
  "always_rasterizes svg2png \<longleftrightarrow>
     (\<forall>svg width bg. \<exists>png. svg2png svg width 1 bg = Inr png)"

section \<open>A sample run\<close>

text \<open>
  A concrete document, instance, world and rasterizer on which the functions
  above can be evaluated: the instance as \<open>main\<close> builds it, a world that holds
  the source document, and a rasterizer that always succeeds.
\<close>

definition example_text :: string where
  \<open>example_text = ''<path fill="#0063be"/><path fill="#0063BE"/>''\<close>

definition example_gen :: GenImages where
  "example_gen = init_GenImages ''./logo/asset-svg/logo.svg''"

definition example_world :: world where
  "example_world =
     \<lparr>files = [''./logo/asset-svg/logo.svg'' \<mapsto> example_text],
      dirs = {''./logo'', ''./logo/asset-svg''},
      read_log = []\<rparr>"

definition example_svg2png :: rasterizer where
  "example_svg2png bytestring output_width scale background_color = Inr (''PNG '' @ bytestring)"

definition example_calls :: "call list" where
  "example_calls =
     [Call_save ''#FFF'' ''out/white-16'' 16 ''png'' None,
      Call_get_svg,
      Call_replace_colors ''#000'' ''#0063be'',
      Call_save ''#000'' ''black-16'' 16 ''png'' None]"

text \<open>A world whose source file is not UTF-8: the single byte \<open>0xFF\<close>.\<close>

definition example_bad_world :: world where
  "example_bad_world = \<lparr>files = [''bad.svg'' \<mapsto> [CHR 0xFF]], dirs = {}, read_log = []\<rparr>"

section \<open>Properties of the replacement\<close>

lemma replace_scan_same_aux: "new = old \<Longrightarrow> replace_scan old new s = s"
proof (induction old new s rule: replace_scan.induct)
  case (1 old new)
  show ?case by simp
next
  case (2 old new x xs)
  show ?case
  proof (cases "old \<noteq> [] \<and> prefix old (x # xs)")
    case True
    then obtain rest where r: "x # xs = old @ rest"
      by (auto simp: prefix_def)
    have d: "drop (length old) (x # xs) = rest"
      by (simp only: r append_eq_conv_conj) simp
    from 2(1) [OF True] 2(3) d have ih: "replace_scan old new rest = rest" by simp
    from True have "replace_scan old new (x # xs) =
        new @ replace_scan old new (drop (length old) (x # xs))" by simp
    also have "\<dots> = old @ rest" using d ih 2(3) by simp
    finally show ?thesis by (simp only: r)
  next
    case False
    with 2 show ?thesis by auto
  qed
qed

lemma replace_scan_same: "replace_scan c c s = s"
  by (rule replace_scan_same_aux) (rule refl)

lemma py_replace_same: "py_replace s c c = s"
proof (cases "c = []")
  case True
  have "concat (map (\<lambda>ch. if is_continuation ch then [ch] else [] @ [ch]) s) = s"
    by (induction s) simp_all
  with True show ?thesis by (simp add: py_replace_def)
next
  case False
  then show ?thesis by (simp add: py_replace_def replace_scan_same)
qed

lemma occurs_in_iff: "occurs_in old s \<longleftrightarrow> (\<exists>pre post. s = pre @ old @ post)"
proof (induction s)
  case Nil
  show ?case by auto
next
  case (Cons x xs)
  show ?case
  proof
    assume "occurs_in old (x # xs)"
    then consider "prefix old (x # xs)" | "occurs_in old xs" by auto
    then show "\<exists>pre post. x # xs = pre @ old @ post"
    proof cases
      case 1
      then obtain post where "x # xs = old @ post" by (auto simp: prefix_def)
      then have "x # xs = [] @ old @ post" by simp
      then show ?thesis by blast
    next
      case 2
      with Cons obtain pre post where "xs = pre @ old @ post" by blast
      then have "x # xs = (x # pre) @ old @ post" by simp
      then show ?thesis by blast
    qed
  next
    assume "\<exists>pre post. x # xs = pre @ old @ post"
    then obtain pre post where e: "x # xs = pre @ old @ post" by blast
    show "occurs_in old (x # xs)"
    proof (cases pre)
      case Nil
      with e have "prefix old (x # xs)" by (simp add: prefix_def)
      then show ?thesis by simp
    next
      case (Cons p pre')
      with e have "xs = pre' @ old @ post" by simp
      with Cons.IH have "occurs_in old xs" by blast
      then show ?thesis by simp
    qed
  qed
qed

lemma replace_scan_absent: "\<not> occurs_in old s \<Longrightarrow> replace_scan old new s = s"
  by (induction s) auto

lemma py_replace_absent:
  assumes "\<not> occurs_in old s"
  shows "py_replace s old new = s"
proof -
  from assms have "old \<noteq> []" by (cases s) auto
  with assms show ?thesis by (simp add: py_replace_def replace_scan_absent)
qed

section \<open>Recoloring\<close>

lemma get_svg_cached: "svg_cache self = Some t \<Longrightarrow> get_svg self w = (Inr t, self, w)"
  by (simp add: get_svg_def)

lemma get_svg_first:
  assumes "svg_cache self = None" and "get_svg self w = (Inr t, self', w')"
  shows "self' = self\<lparr>svg_cache := Some t\<rparr>"
    and "\<exists>bytes. files w (svg_src self) = Some bytes \<and> utf8_valid bytes
           \<and> t = universal_newlines bytes"
    and "w' = w\<lparr>read_log := read_log w @ [svg_src self]\<rparr>"
  using assms
  by (auto simp: get_svg_def read_text_def Let_def split: if_splits option.splits)

text \<open>
  C5. Recoloring with the target color equal to the default color gives back the
  document: the call returns exactly what the document loader returns, for every
  color string (the empty one included) and every state.
\<close>

theorem replace_colors_same_color: "replace_colors self c c w = get_svg self w"
  by (simp add: replace_colors_def py_replace_same split: prod.splits sum.splits)

text \<open>
  C4. When the default color does not occur as a substring of the loaded document,
  recoloring returns the document unchanged and raises nothing.
\<close>

theorem replace_colors_absent:
  assumes "get_svg self w = (Inr text, self', w')"
    and "\<not> (\<exists>pre post. text = pre @ default_color @ post)"
  shows "replace_colors self color default_color w = (Inr text, self', w')"
proof -
  from assms(2) have "\<not> occurs_in default_color text"
    unfolding occurs_in_iff .
  then have "py_replace text default_color color = text"
    by (rule py_replace_absent)
  with assms(1) show ?thesis by (simp add: replace_colors_def)
qed

theorem replace_colors_absent_witness:
  \<open>get_svg \<lparr>svg_src = ''logo.svg'', svg_cache = Some ''<path fill="#0063BE"/>''\<rparr>
       \<lparr>files = Map.empty, dirs = {}, read_log = []\<rparr>
     = (Inr ''<path fill="#0063BE"/>'',
        \<lparr>svg_src = ''logo.svg'', svg_cache = Some ''<path fill="#0063BE"/>''\<rparr>,
        \<lparr>files = Map.empty, dirs = {}, read_log = []\<rparr>)
   \<and> \<not> (\<exists>pre post. ''<path fill="#0063BE"/>'' = pre @ ''#0063be'' @ post)
   \<and> replace_colors \<lparr>svg_src = ''logo.svg'', svg_cache = Some ''<path fill="#0063BE"/>''\<rparr>
         ''#FFF'' ''#0063be'' \<lparr>files = Map.empty, dirs = {}, read_log = []\<rparr>
     = (Inr ''<path fill="#0063BE"/>'',
        \<lparr>svg_src = ''logo.svg'', svg_cache = Some ''<path fill="#0063BE"/>''\<rparr>,
        \<lparr>files = Map.empty, dirs = {}, read_log = []\<rparr>)\<close>
proof -
  have g: \<open>get_svg \<lparr>svg_src = ''logo.svg'', svg_cache = Some ''<path fill="#0063BE"/>''\<rparr>
       \<lparr>files = Map.empty, dirs = {}, read_log = []\<rparr>
     = (Inr ''<path fill="#0063BE"/>'',
        \<lparr>svg_src = ''logo.svg'', svg_cache = Some ''<path fill="#0063BE"/>''\<rparr>,
        \<lparr>files = Map.empty, dirs = {}, read_log = []\<rparr>)\<close>
    by (simp add: get_svg_def)
  have \<open>\<not> occurs_in ''#0063be'' ''<path fill="#0063BE"/>''\<close>
    by simp
  then have a: \<open>\<not> (\<exists>pre post. ''<path fill="#0063BE"/>'' = pre @ ''#0063be'' @ post)\<close>
    unfolding occurs_in_iff .
  from replace_colors_absent [OF g a] g a show ?thesis by blast
qed

section \<open>The cached document\<close>

lemma makedirs_keeps:
  "makedirs_exist_ok name w = (r, w') \<Longrightarrow> read_log w' = read_log w \<and> files w' = files w"
  by (auto simp: makedirs_exist_ok_def split: if_splits)

lemma makedirs_fails:
  "makedirs_exist_ok name w = (Inl e, w') \<Longrightarrow> w' = w"
  by (auto simp: makedirs_exist_ok_def split: if_splits)

lemma write_file_read_log:
  "write_file path data w = (r, w') \<Longrightarrow> read_log w' = read_log w"
  by (auto simp: write_file_def split: if_splits)

lemma get_svg_src: "get_svg self w = (r, self', w') \<Longrightarrow> svg_src self' = svg_src self"
  by (auto simp: get_svg_def read_text_def Let_def split: if_splits option.splits)

lemma get_svg_keeps:
  assumes "svg_cache self = Some t" and "get_svg self w = (r, self', w')"
  shows "r = Inr t \<and> self' = self \<and> w' = w"
  using assms by (simp add: get_svg_def)

text \<open>
  A call of the loader on an empty cache either fails and leaves the cache empty,
  having read nothing or having read bytes that do not decode, or fills the cache
  after one read.
\<close>

lemma get_svg_loads:
  assumes "svg_cache self = None" and "get_svg self w = (r, self', w')"
  shows "(svg_cache self' = None \<and> (\<exists>e. r = Inl e) \<and> files w' = files w
          \<and> (read_log w' = read_log w
             \<or> (read_log w' = read_log w @ [svg_src self]
                \<and> (\<exists>bytes. files w (svg_src self) = Some bytes \<and> \<not> utf8_valid bytes))))
       \<or> (\<exists>t. svg_cache self' = Some t \<and> read_log w' = read_log w @ [svg_src self])"
  using assms
  by (auto simp: get_svg_def read_text_def Let_def split: if_splits option.splits)

lemma replace_colors_state:
  "replace_colors self c orig w = (r, self', w') \<Longrightarrow>
     \<exists>r0. get_svg self w = (r0, self', w') \<and> ((\<exists>e. r0 = Inl e) \<longleftrightarrow> (\<exists>e. r = Inl e))"
  by (auto simp: replace_colors_def split: prod.splits sum.splits)

lemma save_state:
  assumes "save svg2png self fg output width ext bg w = (r, self', w')"
  shows "(self' = self \<and> w' = w)
       \<or> (\<exists>r0 w1 w2. read_log w1 = read_log w \<and> files w1 = files w
             \<and> get_svg self w1 = (r0, self', w2)
             \<and> read_log w' = read_log w2 \<and> ((\<exists>e. r0 = Inl e) \<longrightarrow> w' = w2))"
proof (cases "makedirs_exist_ok (str_or (dirname output) (dirname output)) w")
  case (Pair m w1)
  then have l1: "read_log w1 = read_log w \<and> files w1 = files w" by (rule makedirs_keeps)
  show ?thesis
  proof (cases m)
    case (Inl e)
    with Pair have "w1 = w" by (simp add: makedirs_fails)
    with Inl Pair assms show ?thesis by (simp add: save_def)
  next
    case (Inr u)
    obtain rc self2 w2 where rc: "replace_colors self fg default_original_color w1 = (rc, self2, w2)"
      by (cases "replace_colors self fg default_original_color w1") auto
    then obtain r0 where g: "get_svg self w1 = (r0, self2, w2)"
      and fl: "(\<exists>e. r0 = Inl e) \<longleftrightarrow> (\<exists>e. rc = Inl e)"
      by (blast dest: replace_colors_state)
    have "self' = self2 \<and> read_log w' = read_log w2 \<and> ((\<exists>e. rc = Inl e) \<longrightarrow> w' = w2)"
      using assms Pair Inr rc
      by (auto simp: save_def Let_def split: sum.splits prod.splits dest: write_file_read_log)
    with l1 g fl show ?thesis by blast
  qed
qed

lemma perform_cached:
  assumes "svg_cache self = Some t" and "perform svg2png c self w = (self', w')"
  shows "self' = self \<and> read_log w' = read_log w"
proof (cases c)
  case Call_get_svg
  with assms show ?thesis by (simp add: get_svg_def)
next
  case (Call_replace_colors col orig)
  with assms show ?thesis by (simp add: replace_colors_def get_svg_def)
next
  case (Call_save fg out width ext bg)
  obtain r where "save svg2png self fg out width ext bg w = (r, self', w')"
    using assms(2) Call_save by (cases "save svg2png self fg out width ext bg w") auto
  from save_state [OF this] assms(1) show ?thesis
    by (auto dest: get_svg_keeps)
qed

lemma perform_fresh:
  assumes "svg_cache self = None" and "perform svg2png c self w = (self', w')"
  shows "svg_src self' = svg_src self
       \<and> ((svg_cache self' = None \<and> files w' = files w
            \<and> (read_log w' = read_log w
               \<or> (read_log w' = read_log w @ [svg_src self]
                  \<and> (\<exists>bytes. files w (svg_src self) = Some bytes \<and> \<not> utf8_valid bytes))))
          \<or> (\<exists>t. svg_cache self' = Some t \<and> read_log w' = read_log w @ [svg_src self]))"
proof (cases c)
  case Call_get_svg
  then obtain r where g: "get_svg self w = (r, self', w')"
    using assms(2) by (cases "get_svg self w") auto
  from get_svg_src [OF g] get_svg_loads [OF assms(1) g] show ?thesis by blast
next
  case (Call_replace_colors col orig)
  then obtain r where "replace_colors self col orig w = (r, self', w')"
    using assms(2) by (cases "replace_colors self col orig w") auto
  then obtain r0 where g: "get_svg self w = (r0, self', w')"
    by (blast dest: replace_colors_state)
  from get_svg_src [OF g] get_svg_loads [OF assms(1) g] show ?thesis by blast
next
  case (Call_save fg out width ext bg)
  obtain r where "save svg2png self fg out width ext bg w = (r, self', w')"
    using assms(2) Call_save by (cases "save svg2png self fg out width ext bg w") auto
  from save_state [OF this] show ?thesis
  proof
    assume "self' = self \<and> w' = w"
    with assms(1) show ?thesis by simp
  next
    assume "\<exists>r0 w1 w2. read_log w1 = read_log w \<and> files w1 = files w
             \<and> get_svg self w1 = (r0, self', w2)
             \<and> read_log w' = read_log w2 \<and> ((\<exists>e. r0 = Inl e) \<longrightarrow> w' = w2)"
    then obtain r0 w1 w2 where l: "read_log w1 = read_log w" and f: "files w1 = files w"
      and g: "get_svg self w1 = (r0, self', w2)" and l2: "read_log w' = read_log w2"
      and e: "(\<exists>e. r0 = Inl e) \<longrightarrow> w' = w2"
      by blast
    from get_svg_loads [OF assms(1) g] show ?thesis
    proof
      assume "svg_cache self' = None \<and> (\<exists>e. r0 = Inl e) \<and> files w2 = files w1
          \<and> (read_log w2 = read_log w1
             \<or> (read_log w2 = read_log w1 @ [svg_src self]
                \<and> (\<exists>bytes. files w1 (svg_src self) = Some bytes \<and> \<not> utf8_valid bytes)))"
      with e l f l2 get_svg_src [OF g] show ?thesis by auto
    next
      assume "\<exists>t. svg_cache self' = Some t \<and> read_log w2 = read_log w1 @ [svg_src self]"
      with l l2 get_svg_src [OF g] show ?thesis by auto
    qed
  qed
qed

lemma run_calls_cached:
  "svg_cache self = Some t \<Longrightarrow> run_calls svg2png cs self w = (self', w')
     \<Longrightarrow> self' = self \<and> read_log w' = read_log w"
proof (induction cs arbitrary: self w)
  case Nil
  then show ?case by simp
next
  case (Cons c cs)
  obtain s1 w1 where p: "perform svg2png c self w = (s1, w1)"
    by (cases "perform svg2png c self w") auto
  from perform_cached [OF Cons.prems(1) p] have e: "s1 = self" "read_log w1 = read_log w"
    by simp_all
  from Cons.prems(2) p have "run_calls svg2png cs s1 w1 = (self', w')" by simp
  with Cons.IH [of s1 w1] Cons.prems(1) e show ?case by simp
qed

lemma run_calls_fresh:
  "svg_cache self = None \<Longrightarrow> run_calls svg2png cs self w = (self', w')
     \<Longrightarrow> svg_src self' = svg_src self
       \<and> (\<exists>n. n \<le> length cs \<and> read_log w' = read_log w @ replicate n (svg_src self))
       \<and> ((\<forall>bytes. files w (svg_src self) = Some bytes \<longrightarrow> utf8_valid bytes) \<longrightarrow>
            read_log w' = read_log w \<or> read_log w' = read_log w @ [svg_src self])"
proof (induction cs arbitrary: self w)
  case Nil
  then show ?case by simp
next
  case (Cons c cs)
  let ?src = "svg_src self"
  obtain s1 w1 where p: "perform svg2png c self w = (s1, w1)"
    by (cases "perform svg2png c self w") auto
  from Cons.prems(2) p have r: "run_calls svg2png cs s1 w1 = (self', w')" by simp
  from perform_fresh [OF Cons.prems(1) p] have src: "svg_src s1 = ?src"
    and d: "(svg_cache s1 = None \<and> files w1 = files w
            \<and> (read_log w1 = read_log w
               \<or> (read_log w1 = read_log w @ [?src]
                  \<and> (\<exists>bytes. files w ?src = Some bytes \<and> \<not> utf8_valid bytes))))
          \<or> (\<exists>t. svg_cache s1 = Some t \<and> read_log w1 = read_log w @ [?src])"
    by simp_all
  from d show ?case
  proof
    assume a: "svg_cache s1 = None \<and> files w1 = files w
            \<and> (read_log w1 = read_log w
               \<or> (read_log w1 = read_log w @ [?src]
                  \<and> (\<exists>bytes. files w ?src = Some bytes \<and> \<not> utf8_valid bytes)))"
    then have c1: "svg_cache s1 = None" and f1: "files w1 = files w" by simp_all
    from Cons.IH [OF c1 r] src obtain n where s': "svg_src self' = ?src"
      and n: "n \<le> length cs" and l: "read_log w' = read_log w1 @ replicate n ?src"
      and v: "(\<forall>bytes. files w1 ?src = Some bytes \<longrightarrow> utf8_valid bytes) \<longrightarrow>
            read_log w' = read_log w1 \<or> read_log w' = read_log w1 @ [?src]"
      by auto
    from a have "read_log w1 = read_log w \<or> read_log w1 = read_log w @ replicate 1 ?src"
      by auto
    then have "\<exists>m. m \<le> length (c # cs) \<and> read_log w' = read_log w @ replicate m ?src"
    proof
      assume "read_log w1 = read_log w"
      with l n have "n \<le> length (c # cs) \<and> read_log w' = read_log w @ replicate n ?src"
        by simp
      then show ?thesis by blast
    next
      assume "read_log w1 = read_log w @ replicate 1 ?src"
      with l n have "Suc n \<le> length (c # cs)
          \<and> read_log w' = read_log w @ replicate (Suc n) ?src"
        by simp
      then show ?thesis by blast
    qed
    moreover have "(\<forall>bytes. files w ?src = Some bytes \<longrightarrow> utf8_valid bytes) \<longrightarrow>
            read_log w' = read_log w \<or> read_log w' = read_log w @ [?src]"
    proof
      assume h: "\<forall>bytes. files w ?src = Some bytes \<longrightarrow> utf8_valid bytes"
      with a have "read_log w1 = read_log w" by auto
      with v h f1 show "read_log w' = read_log w \<or> read_log w' = read_log w @ [?src]"
        by simp
    qed
    ultimately show ?thesis using s' by blast
  next
    assume "\<exists>t. svg_cache s1 = Some t \<and> read_log w1 = read_log w @ [?src]"
    then obtain t where t: "svg_cache s1 = Some t"
      and l: "read_log w1 = read_log w @ [?src]" by blast
    from run_calls_cached [OF t r] have e: "self' = s1" "read_log w' = read_log w1"
      by simp_all
    have "(1::nat) \<le> length (c # cs) \<and> read_log w' = read_log w @ replicate 1 ?src"
      using e l by simp
    then have "\<exists>m. m \<le> length (c # cs) \<and> read_log w' = read_log w @ replicate m ?src"
      by blast
    with e l src show ?thesis by simp
  qed
qed

text \<open>
  C6, as the code has it. A call of the loader on an instance whose cache is
  filled returns the cached text and leaves instance and world as they are; a
  call on a fresh instance that succeeds has read the bytes of the file once,
  decoded them (well-formed UTF-8, line ends translated) and filled the cache
  with the text. Once the cache holds a text no sequence of method calls changes
  the instance or reads again, so every recoloring starts from that same text.
  A new instance reads its file at most once over any sequence of calls when the
  file is missing or well-formed UTF-8; in general it reads at most once per
  call, since a load that fails leaves the cache empty.
\<close>

theorem svg_read_once_loaded:
  "(svg_cache self = None \<and> get_svg self w = (Inr t, self1, w1) \<longrightarrow>
        self1 = self\<lparr>svg_cache := Some t\<rparr>
        \<and> (\<exists>bytes. files w (svg_src self) = Some bytes \<and> utf8_valid bytes
               \<and> t = universal_newlines bytes)
        \<and> read_log w1 = read_log w @ [svg_src self])
   \<and> (svg_cache self1 = Some t \<longrightarrow> get_svg self1 w1 = (Inr t, self1, w1))
   \<and> (svg_cache self1 = Some t \<and> run_calls svg2png cs self1 w1 = (self2, w2) \<longrightarrow>
        self2 = self1 \<and> read_log w2 = read_log w1
        \<and> replace_colors self2 c orig w2 = (Inr (py_replace t orig c), self2, w2))
   \<and> (run_calls svg2png cs' (init_GenImages src) w0 = (self3, w3)
        \<and> (\<forall>bytes. files w0 src = Some bytes \<longrightarrow> utf8_valid bytes) \<longrightarrow>
        read_log w3 = read_log w0 \<or> read_log w3 = read_log w0 @ [src])
   \<and> (run_calls svg2png cs' (init_GenImages src) w0 = (self3, w3) \<longrightarrow>
        (\<exists>n. n \<le> length cs' \<and> read_log w3 = read_log w0 @ replicate n src))"
proof (intro conjI impI)
  assume "svg_cache self1 = Some t"
  then show "get_svg self1 w1 = (Inr t, self1, w1)" by (rule get_svg_cached)
next
  assume a: "svg_cache self = None \<and> get_svg self w = (Inr t, self1, w1)"
  then show "self1 = self\<lparr>svg_cache := Some t\<rparr>"
    by (blast dest: get_svg_first(1))
  from a show "\<exists>bytes. files w (svg_src self) = Some bytes \<and> utf8_valid bytes
               \<and> t = universal_newlines bytes"
    by (blast dest: get_svg_first(2))
  from a have "w1 = w\<lparr>read_log := read_log w @ [svg_src self]\<rparr>"
    by (blast dest: get_svg_first(3))
  then show "read_log w1 = read_log w @ [svg_src self]" by simp
next
  assume a: "run_calls svg2png cs' (init_GenImages src) w0 = (self3, w3)
        \<and> (\<forall>bytes. files w0 src = Some bytes \<longrightarrow> utf8_valid bytes)"
  then have r: "run_calls svg2png cs' (init_GenImages src) w0 = (self3, w3)" by simp
  from run_calls_fresh [OF _ r] a
  show "read_log w3 = read_log w0 \<or> read_log w3 = read_log w0 @ [src]"
    by (simp add: init_GenImages_def)
next
  assume "run_calls svg2png cs' (init_GenImages src) w0 = (self3, w3)"
  from run_calls_fresh [OF _ this]
  show "\<exists>n. n \<le> length cs' \<and> read_log w3 = read_log w0 @ replicate n src"
    by (simp add: init_GenImages_def)
next
  assume a: "svg_cache self1 = Some t \<and> run_calls svg2png cs self1 w1 = (self2, w2)"
  then have e: "self2 = self1 \<and> read_log w2 = read_log w1"
    by (blast dest: run_calls_cached)
  then show "self2 = self1" and "read_log w2 = read_log w1" by simp_all
  from a e show "replace_colors self2 c orig w2 = (Inr (py_replace t orig c), self2, w2)"
    by (simp add: replace_colors_def get_svg_def)
qed

theorem svg_read_once_loaded_witness:
  "svg_cache example_gen = None
   \<and> get_svg example_gen example_world =
       (Inr example_text, example_gen\<lparr>svg_cache := Some example_text\<rparr>,
        example_world\<lparr>read_log := [''./logo/asset-svg/logo.svg'']\<rparr>)
   \<and> files example_world ''./logo/asset-svg/logo.svg'' = Some example_text
   \<and> utf8_valid example_text
   \<and> get_svg (example_gen\<lparr>svg_cache := Some example_text\<rparr>)
         (example_world\<lparr>read_log := [''./logo/asset-svg/logo.svg'']\<rparr>) =
       (Inr example_text, example_gen\<lparr>svg_cache := Some example_text\<rparr>,
        example_world\<lparr>read_log := [''./logo/asset-svg/logo.svg'']\<rparr>)
   \<and> fst (run_calls example_svg2png example_calls
            (example_gen\<lparr>svg_cache := Some example_text\<rparr>)
            (example_world\<lparr>read_log := [''./logo/asset-svg/logo.svg'']\<rparr>))
       = example_gen\<lparr>svg_cache := Some example_text\<rparr>
   \<and> read_log (snd (run_calls example_svg2png example_calls
            (example_gen\<lparr>svg_cache := Some example_text\<rparr>)
            (example_world\<lparr>read_log := [''./logo/asset-svg/logo.svg'']\<rparr>)))
       = [''./logo/asset-svg/logo.svg'']
   \<and> read_log (snd (run_calls example_svg2png example_calls
            (init_GenImages ''./logo/asset-svg/logo.svg'') example_world))
       = [''./logo/asset-svg/logo.svg'']"
proof -
  let ?src = "''./logo/asset-svg/logo.svg''"
  let ?loaded = "example_gen\<lparr>svg_cache := Some example_text\<rparr>"
  let ?w1 = "example_world\<lparr>read_log := [?src]\<rparr>"
  let ?run1 = "run_calls example_svg2png example_calls ?loaded ?w1"
  let ?run0 = "run_calls example_svg2png example_calls (init_GenImages ?src) example_world"
  have h1: "svg_cache example_gen = None"
    by (simp add: example_gen_def init_GenImages_def)
  have h2: "get_svg example_gen example_world = (Inr example_text, ?loaded, ?w1)"
    by (simp add: get_svg_def read_text_def parent_dirs_def utf8_valid_def
        example_gen_def init_GenImages_def example_world_def example_text_def)
  have h3: "svg_cache ?loaded = Some example_text" by simp
  have h4: "?run1 = (fst ?run1, snd ?run1)" by simp
  have h5: "?run0 = (fst ?run0, snd ?run0)" by simp
  have h7: "\<forall>bytes. files example_world ?src = Some bytes \<longrightarrow> utf8_valid bytes"
    by (simp add: example_world_def example_text_def utf8_valid_def)
  have h6: "read_log (snd ?run0) \<noteq> read_log example_world"
    by (simp add: example_calls_def example_svg2png_def example_world_def example_text_def
        init_GenImages_def save_def makedirs_exist_ok_def write_file_def
        replace_colors_def get_svg_def read_text_def dirname_def rstrip_slash_def
        str_or_def default_original_color_def py_replace_def Let_def
        parent_dirs_def utf8_valid_def standing_directory_def)
  note inst = svg_read_once_loaded [of example_gen example_world example_text ?loaded ?w1
      example_svg2png example_calls "fst ?run1" "snd ?run1" _ _ example_calls ?src
      example_world "fst ?run0" "snd ?run0"]
  from inst h3 have b: "get_svg ?loaded ?w1 = (Inr example_text, ?loaded, ?w1)"
    by blast
  from inst h3 h4 have c: "fst ?run1 = ?loaded \<and> read_log (snd ?run1) = read_log ?w1"
    by blast
  from inst h5 h7 have "read_log (snd ?run0) = read_log example_world
      \<or> read_log (snd ?run0) = read_log example_world @ [?src]"
    by blast
  with h6 have d: "read_log (snd ?run0) = read_log example_world @ [?src]"
    by blast
  have e: "read_log example_world = []" "read_log ?w1 = [?src]"
    by (simp_all add: example_world_def)
  show ?thesis
  proof (intro conjI)
    show "svg_cache example_gen = None" by (rule h1)
    show "get_svg example_gen example_world = (Inr example_text, ?loaded, ?w1)" by (rule h2)
    show "files example_world ?src = Some example_text"
      by (simp add: example_world_def)
    show "utf8_valid example_text"
      by (simp add: example_text_def utf8_valid_def)
    show "get_svg ?loaded ?w1 = (Inr example_text, ?loaded, ?w1)" by (rule b)
    show "fst ?run1 = ?loaded" using c by blast
    show "read_log (snd ?run1) = [?src]" using c e by simp
    show "read_log (snd ?run0) = [?src]" using d e by simp
  qed
qed

text \<open>
  The claim as stated fails on a file that is not UTF-8: the bytes are read, the
  decoding raises, the cache stays empty, and the next call on the same instance
  reads the file again.
\<close>

theorem svg_read_twice_counterexample:
  "run_calls example_svg2png [Call_get_svg, Call_get_svg] (init_GenImages ''bad.svg'')
     example_bad_world
   = (init_GenImages ''bad.svg'',
      example_bad_world\<lparr>read_log := [''bad.svg'', ''bad.svg'']\<rparr>)"
  by (simp add: get_svg_def read_text_def parent_dirs_def utf8_valid_def
      init_GenImages_def example_bad_world_def)

section \<open>Saving\<close>

text \<open>
  C7. The directory of the output path is the empty string when the path has no
  directory part; \<open>os.path.dirname(output) or os.path.dirname(output)\<close> is then
  empty too, and creating it fails: \<open>save\<close> raises \<open>FileNotFoundError\<close> before it
  loads, rasterizes or writes anything.
\<close>

theorem save_without_directory_fails:
  "save svg2png self fg ''favicon-16'' 16 ''png'' None w = (Inl FileNotFoundError, self, w)"
  by (simp add: save_def dirname_def str_or_def makedirs_exist_ok_def)

text \<open>
  An occurrence of the default color cannot straddle the border of an occurrence
  of another spelling of the same length that starts with the same character,
  when that character occurs nowhere else in the default color.
\<close>

lemma prefix_no_straddle:
  assumes p: "prefix (h # t) (a @ (h # t') @ b)"
    and h: "h \<notin> set t" and len: "length t = length t'" and ne: "t \<noteq> t'"
  shows "prefix (h # t) a"
proof -
  from p have "prefix (h # t) a \<or> (\<exists>us. h # t = a @ us \<and> prefix us ((h # t') @ b))"
    by (simp only: prefix_append)
  then show ?thesis
  proof
    assume "prefix (h # t) a"
    then show ?thesis .
  next
    assume "\<exists>us. h # t = a @ us \<and> prefix us ((h # t') @ b)"
    then obtain us where e: "h # t = a @ us" and pu: "prefix us ((h # t') @ b)"
      by blast
    show ?thesis
    proof (cases a)
      case Nil
      with e have "us = h # t" by simp
      with pu have "prefix t (t' @ b)" by simp
      then obtain r where "t' @ b = t @ r" by (auto simp: prefix_def)
      with len have "t = t'" by (simp add: append_eq_append_conv)
      with ne show ?thesis by simp
    next
      case (Cons y ys)
      with e have t: "t = ys @ us" by simp
      show ?thesis
      proof (cases us)
        case Nil
        with e show ?thesis by simp
      next
        case (Cons u us')
        with pu have "u = h" by simp
        with t Cons h show ?thesis by simp
      qed
    qed
  qed
qed

lemma replace_scan_copy:
  "h \<notin> set s \<Longrightarrow> replace_scan (h # t) new (s @ b) = s @ replace_scan (h # t) new b"
  by (induction s) auto

lemma replace_scan_skip:
  assumes h': "h \<notin> set t'" and len: "length t = length t'" and ne: "t \<noteq> t'"
  shows "replace_scan (h # t) new ((h # t') @ b) = (h # t') @ replace_scan (h # t) new b"
proof -
  have "\<not> prefix t (t' @ b)"
  proof
    assume "prefix t (t' @ b)"
    then obtain r where "t' @ b = t @ r" by (auto simp: prefix_def)
    with len have "t = t'" by (simp add: append_eq_append_conv)
    with ne show False by simp
  qed
  then have "replace_scan (h # t) new ((h # t') @ b) = h # replace_scan (h # t) new (t' @ b)"
    by simp
  with replace_scan_copy [OF h'] show ?thesis by simp
qed

lemma replace_scan_around:
  assumes h: "h \<notin> set t" and h': "h \<notin> set t'"
    and len: "length t = length t'" and ne: "t \<noteq> t'"
  shows "replace_scan (h # t) new (a @ (h # t') @ b) =
         replace_scan (h # t) new a @ (h # t') @ replace_scan (h # t) new b"
proof -
  define L where "L = h # t"
  define U where "U = h # t'"
  have L: "L \<noteq> []" by (simp add: L_def)
  have skip: "replace_scan L new (U @ b) = U @ replace_scan L new b"
    unfolding L_def U_def by (rule replace_scan_skip [OF h' len ne])
  have straddle: "prefix L (s @ U @ b) \<Longrightarrow> prefix L s" for s
    unfolding L_def U_def by (rule prefix_no_straddle [OF _ h len ne])
  have "replace_scan L new (a @ U @ b) = replace_scan L new a @ U @ replace_scan L new b"
  proof (induction a rule: length_induct)
    case (1 a)
    show ?case
    proof (cases a)
      case Nil
      with skip show ?thesis by simp
    next
      case (Cons x xs)
      show ?thesis
      proof (cases "prefix L (x # xs)")
        case True
        then obtain rest where r: "x # xs = L @ rest" by (auto simp: prefix_def)
        then have "length rest < length a" using Cons L by (cases L) auto
        with 1 have ih: "replace_scan L new (rest @ U @ b) =
            replace_scan L new rest @ U @ replace_scan L new b"
          by blast
        have d1: "drop (length L) (x # xs) = rest"
          by (simp only: r append_eq_conv_conj) simp
        have e2: "x # (xs @ U @ b) = L @ (rest @ U @ b)"
          using r by (metis append_Cons append_assoc)
        have d2: "drop (length L) (x # (xs @ U @ b)) = rest @ U @ b"
          by (simp only: e2 append_eq_conv_conj) simp
        have p2: "prefix L (x # (xs @ U @ b))"
          by (simp only: e2 prefixI)
        have "replace_scan L new (x # (xs @ U @ b)) =
              new @ replace_scan L new (drop (length L) (x # (xs @ U @ b)))"
          using p2 L by simp
        then have s2: "replace_scan L new (x # (xs @ U @ b)) =
              new @ replace_scan L new rest @ U @ replace_scan L new b"
          by (simp only: d2 ih)
        have "replace_scan L new (x # xs) =
              new @ replace_scan L new (drop (length L) (x # xs))"
          using True L by simp
        then have s1: "replace_scan L new (x # xs) = new @ replace_scan L new rest"
          by (simp only: d1)
        show ?thesis by (simp only: Cons append_Cons s1 s2 append_assoc)
      next
        case False
        with straddle [of "x # xs"] have "\<not> prefix L (x # (xs @ U @ b))"
          by auto
        then have s2: "replace_scan L new (x # (xs @ U @ b)) =
              x # replace_scan L new (xs @ U @ b)"
          by simp
        from False have s1: "replace_scan L new (x # xs) = x # replace_scan L new xs"
          by simp
        from 1 Cons have ih: "replace_scan L new (xs @ U @ b) =
           replace_scan L new xs @ U @ replace_scan L new b"
          by simp
        show ?thesis by (simp only: Cons append_Cons s1 s2 ih)
      qed
    qed
  qed
  then show ?thesis by (simp only: L_def U_def)
qed

lemma py_replace_keeps_other_case:
  assumes "spelling \<in> {''#0063BE'', ''#0063Be'', ''#0063bE''}"
  shows "py_replace (a @ spelling @ b) ''#0063be'' new =
         py_replace a ''#0063be'' new @ spelling @ py_replace b ''#0063be'' new"
proof -
  from assms obtain t' where t': "spelling = CHR ''#'' # t'" "CHR ''#'' \<notin> set t'"
    "length ''0063be'' = length t'" "''0063be'' \<noteq> t'"
    by auto
  have "CHR ''#'' \<notin> set ''0063be''" by simp
  from replace_scan_around [OF this t'(2) t'(3) t'(4)]
  have "replace_scan (CHR ''#'' # ''0063be'') new (a @ spelling @ b) =
        replace_scan (CHR ''#'' # ''0063be'') new a @ spelling
        @ replace_scan (CHR ''#'' # ''0063be'') new b"
    by (simp only: t'(1))
  then show ?thesis by (simp add: py_replace_def)
qed

text \<open>
  C9. \<open>save\<close> always replaces the lowercase literal \<open>#0063be\<close>, the default of
  \<open>original_color\<close>, and the replacement is case-sensitive: around any occurrence
  of another casing of that color in the document (\<open>#0063BE\<close>, \<open>#0063Be\<close>,
  \<open>#0063bE\<close>), the text handed to the rasterizer is the recolored text before it,
  the occurrence itself untouched, and the recolored text after it, for every
  foreground color.
\<close>

theorem save_keeps_uppercase_color:
  assumes "spelling \<in> {''#0063BE'', ''#0063Be'', ''#0063bE''}"
    and "makedirs_exist_ok (str_or (dirname output) (dirname output)) w = (Inr (), w1)"
    and "get_svg self w1 = (Inr (a @ spelling @ b), self2, w2)"
  shows "save svg2png self foreground_color output output_width ext background_color w =
     (case svg2png (py_replace a ''#0063be'' foreground_color @ spelling
                    @ py_replace b ''#0063be'' foreground_color)
             output_width 1 background_color of
        Inl e \<Rightarrow> (Inl e, self2, w2)
      | Inr png_data \<Rightarrow>
          (case write_file (output @ ''.'' @ ext) png_data w2 of
             (Inl e, w3) \<Rightarrow> (Inl e, self2, w3)
           | (Inr u, w3) \<Rightarrow> (Inr (), self2, w3)))"
proof -
  have rc: "replace_colors self foreground_color default_original_color w1 =
      (Inr (py_replace a ''#0063be'' foreground_color @ spelling
            @ py_replace b ''#0063be'' foreground_color), self2, w2)"
    by (simp only: replace_colors_def assms(3) prod.case sum.case
        default_original_color_def py_replace_keeps_other_case [OF assms(1)])
  show ?thesis
    by (simp add: save_def assms(2) rc Let_def split: sum.splits prod.splits)
qed

theorem save_keeps_uppercase_color_witness:
  \<open>''#0063BE'' \<in> {''#0063BE'', ''#0063Be'', ''#0063bE''}
   \<and> makedirs_exist_ok (str_or (dirname ''out/white-16'') (dirname ''out/white-16'')) example_world
     = (Inr (), example_world\<lparr>dirs := insert ''out'' (dirs example_world)\<rparr>)
   \<and> get_svg example_gen (example_world\<lparr>dirs := insert ''out'' (dirs example_world)\<rparr>)
     = (Inr (''<path fill="#0063be"/><path fill="'' @ ''#0063BE'' @ ''"/>''),
        example_gen\<lparr>svg_cache := Some example_text\<rparr>,
        example_world\<lparr>dirs := insert ''out'' (dirs example_world),
                       read_log := [''./logo/asset-svg/logo.svg'']\<rparr>)
   \<and> save example_svg2png example_gen ''#FFF'' ''out/white-16'' 16 ''png'' None example_world
     = (Inr (),
        example_gen\<lparr>svg_cache := Some example_text\<rparr>,
        example_world\<lparr>dirs := insert ''out'' (dirs example_world),
                       read_log := [''./logo/asset-svg/logo.svg''],
                       files := (files example_world)
                         (''out/white-16.png'' \<mapsto>
                            ''PNG <path fill="#FFF"/><path fill="#0063BE"/>'')\<rparr>)\<close>
proof -
  let ?w1 = "example_world\<lparr>dirs := insert ''out'' (dirs example_world)\<rparr>"
  let ?w2 = "example_world\<lparr>dirs := insert ''out'' (dirs example_world),
                       read_log := [''./logo/asset-svg/logo.svg'']\<rparr>"
  let ?g2 = "example_gen\<lparr>svg_cache := Some example_text\<rparr>"
  have h0: "''#0063BE'' \<in> {''#0063BE'', ''#0063Be'', ''#0063bE''}" by simp
  have h1: "makedirs_exist_ok (str_or (dirname ''out/white-16'') (dirname ''out/white-16''))
      example_world = (Inr (), ?w1)"
    by (simp add: makedirs_exist_ok_def str_or_def dirname_def rstrip_slash_def
        example_world_def)
  have h2: \<open>get_svg example_gen ?w1
     = (Inr (''<path fill="#0063be"/><path fill="'' @ ''#0063BE'' @ ''"/>''), ?g2, ?w2)\<close>
    by (simp add: get_svg_def read_text_def parent_dirs_def utf8_valid_def
        example_gen_def init_GenImages_def example_world_def example_text_def)
  have s: \<open>save example_svg2png example_gen ''#FFF'' ''out/white-16'' 16 ''png'' None
        example_world
     = (Inr (), ?g2,
        ?w2\<lparr>files := (files example_world)
              (''out/white-16.png'' \<mapsto> ''PNG <path fill="#FFF"/><path fill="#0063BE"/>'')\<rparr>)\<close>
    unfolding save_keeps_uppercase_color [OF h0 h1 h2, of example_svg2png "''#FFF''" 16 "''png''" None]
    by (simp add: example_svg2png_def py_replace_def write_file_def dirname_def
        rstrip_slash_def example_world_def parent_dirs_def standing_directory_def)
  from h0 h1 h2 s show ?thesis by (intro conjI)
qed

section \<open>The lookup of the color name\<close>

text \<open>
  C8. The name of a color is looked up at the start of the pass for that color,
  before the loop over the sizes: a color without an entry in the mapping ends
  the run with \<open>KeyError\<close> whatever the sizes are, also when there is no size at
  all or no size of the standard range, and nothing has been saved for that color
  (instance and world are as they were). So a run over a list that holds such a
  color never returns a list of paths.
\<close>

theorem color_lookup_before_sizes:
  "(mapping color = None \<longrightarrow>
      color_loop svg2png mapping (color # rest) szs generated_files gen w
        = (Inl (KeyError color), gen, w))
   \<and> (color \<in> set cs \<and> mapping color = None \<longrightarrow>
        (\<exists>e. fst (color_loop svg2png mapping cs szs generated_files gen w) = Inl e))"
proof (intro conjI impI)
  assume "mapping color = None"
  then show "color_loop svg2png mapping (color # rest) szs generated_files gen w
        = (Inl (KeyError color), gen, w)"
    by simp
next
  assume "color \<in> set cs \<and> mapping color = None"
  then show "\<exists>e. fst (color_loop svg2png mapping cs szs generated_files gen w) = Inl e"
  proof (induction cs arbitrary: generated_files gen w)
    case Nil
    then show ?case by simp
  next
    case (Cons c cs)
    show ?case
    proof (cases "mapping c")
      case None
      then show ?thesis by simp
    next
      case (Some color_type)
      with Cons.prems have "color \<in> set cs \<and> mapping color = None" by auto
      note ih = Cons.IH [OF this]
      obtain r g' w' where sl:
        "size_loop svg2png c color_type szs generated_files gen w = (r, g', w')"
        by (cases "size_loop svg2png c color_type szs generated_files gen w") auto
      show ?thesis
      proof (cases r)
        case (Inl e)
        with Some sl show ?thesis by simp
      next
        case (Inr generated')
        with Some sl ih [of generated' g' w'] show ?thesis by simp
      qed
    qed
  qed
qed

theorem color_lookup_before_sizes_witness:
  "COLOR_MAPPING ''#123456'' = None
   \<and> color_loop example_svg2png COLOR_MAPPING [''#123456''] [16, 64] [] example_gen example_world
       = (Inl (KeyError ''#123456''), example_gen, example_world)
   \<and> ''#123456'' \<in> set [''#0063BE'', ''#123456'']
   \<and> (\<exists>e. fst (color_loop example_svg2png COLOR_MAPPING [''#0063BE'', ''#123456''] [] []
                  example_gen example_world) = Inl e)"
proof -
  have h: "COLOR_MAPPING ''#123456'' = None" by (simp add: COLOR_MAPPING_def)
  have m: "''#123456'' \<in> set [''#0063BE'', ''#123456'']" by simp
  note inst1 = color_lookup_before_sizes [of COLOR_MAPPING "''#123456''" example_svg2png
      "[]" "[16, 64]" "[]" example_gen example_world "[''#0063BE'', ''#123456'']"]
  note inst2 = color_lookup_before_sizes [of COLOR_MAPPING "''#123456''" example_svg2png
      "[]" "[]" "[]" example_gen example_world "[''#0063BE'', ''#123456'']"]
  from inst1 h have a: "color_loop example_svg2png COLOR_MAPPING [''#123456''] [16, 64] []
       example_gen example_world = (Inl (KeyError ''#123456''), example_gen, example_world)"
    by blast
  from inst2 h m have b: "\<exists>e. fst (color_loop example_svg2png COLOR_MAPPING
      [''#0063BE'', ''#123456''] [] [] example_gen example_world) = Inl e"
    by blast
  from h a m b show ?thesis by (intro conjI)
qed

section \<open>The rows of the report\<close>

lemma split_on_nonempty: "split_on sep s \<noteq> []"
  by (induction s) (auto split: list.splits)

lemma hd_split_on: "hd (split_on sep s) = takeWhile (\<lambda>c. c \<noteq> sep) s"
  by (induction s) (auto split: list.splits simp: split_on_nonempty)

lemma split_on_absent: "sep \<notin> set s \<Longrightarrow> split_on sep s = [s]"
  by (induction s) auto

lemma split_on_present: "sep \<in> set s \<Longrightarrow> tl (split_on sep s) \<noteq> []"
proof (induction s)
  case Nil
  then show ?case by simp
next
  case (Cons x xs)
  show ?case
  proof (cases "x = sep")
    case True
    then show ?thesis by (simp add: split_on_nonempty)
  next
    case False
    with Cons.prems have "sep \<in> set xs" by simp
    then have "tl (split_on sep xs) \<noteq> []" by (rule Cons.IH)
    with False show ?thesis by (cases "split_on sep xs") auto
  qed
qed

lemma last_split_on_after: "last (split_on sep (a @ sep # b)) = last (split_on sep b)"
proof (induction a)
  case Nil
  show ?case by (simp add: split_on_nonempty)
next
  case (Cons x a)
  show ?case
  proof (cases "x = sep")
    case True
    with Cons show ?thesis by (simp add: split_on_nonempty)
  next
    case False
    have "tl (split_on sep (a @ sep # b)) \<noteq> []"
      by (rule split_on_present) simp
    then obtain w v vs where "split_on sep (a @ sep # b) = w # v # vs"
      by (cases "split_on sep (a @ sep # b)"; cases "tl (split_on sep (a @ sep # b))") auto
    with False Cons show ?thesis by simp
  qed
qed

lemma last_split_on: "last (split_on sep s) = rev (takeWhile (\<lambda>c. c \<noteq> sep) (rev s))"
proof (cases "sep \<in> set s")
  case False
  then have "takeWhile (\<lambda>c. c \<noteq> sep) (rev s) = rev s"
    by (auto simp: takeWhile_eq_all_conv)
  then have "rev (takeWhile (\<lambda>c. c \<noteq> sep) (rev s)) = s"
    by (simp only: rev_rev_ident)
  moreover from False have "last (split_on sep s) = s"
    by (simp add: split_on_absent)
  ultimately show ?thesis by simp
next
  case True
  then obtain a b where s: "s = a @ sep # b" and b: "sep \<notin> set b"
    by (auto dest: split_list_last)
  have "takeWhile (\<lambda>c. c \<noteq> sep) (rev b @ sep # rev a) = takeWhile (\<lambda>c. c \<noteq> sep) (rev b)"
    by (rule takeWhile_tail) simp
  also have "\<dots> = rev b" using b by (auto simp: takeWhile_eq_all_conv)
  finally have "rev (takeWhile (\<lambda>c. c \<noteq> sep) (rev s)) = b" by (simp add: s)
  moreover have "last (split_on sep s) = b"
    by (simp add: s last_split_on_after split_on_absent [OF b])
  ultimately show ?thesis by simp
qed

lemma readme_loop_eq:
  "readme_loop content image_files = content @ concat (map readme_row image_files)"
  by (induction image_files arbitrary: content) simp_all

lemma readme_row_spec:
  "readme_row p = spec_row (basename p) (spec_size_label (basename p)) (base_url @ basename p)"
  by (simp add: readme_row_def spec_row_def spec_size_label_def after_last_dash_def
      hd_split_on last_split_on base_url_def Let_def)

lemma spec_size_label_suffix:
  assumes "CHR ''-'' \<notin> set label" "CHR ''.'' \<notin> set label" "CHR ''-'' \<notin> set ext"
  shows "spec_size_label (pre @ ''-'' @ label @ ''.'' @ ext) = label"
proof -
  let ?t = "label @ ''.'' @ ext"
  have t: "CHR ''-'' \<notin> set ?t" using assms by simp
  have "takeWhile (\<lambda>c. c \<noteq> CHR ''-'') (rev ?t @ CHR ''-'' # rev pre)
      = takeWhile (\<lambda>c. c \<noteq> CHR ''-'') (rev ?t)"
    by (rule takeWhile_tail) simp
  also have "\<dots> = rev ?t" using t by (auto simp: takeWhile_eq_all_conv)
  finally have a: "after_last_dash (pre @ ''-'' @ ?t) = ?t"
    by (simp add: after_last_dash_def)
  have "takeWhile (\<lambda>c. c \<noteq> CHR ''.'') (label @ CHR ''.'' # ext)
      = takeWhile (\<lambda>c. c \<noteq> CHR ''.'') label"
    by (rule takeWhile_tail) simp
  also have "\<dots> = label" using assms(2) by (auto simp: takeWhile_eq_all_conv)
  finally show ?thesis using a by (simp add: spec_size_label_def)
qed

lemma basename_file_in: "CHR ''/'' \<notin> set f \<Longrightarrow> basename (d @ CHR ''/'' # f) = f"
proof -
  assume f: "CHR ''/'' \<notin> set f"
  have "takeWhile (\<lambda>c. c \<noteq> CHR ''/'') (rev f @ CHR ''/'' # rev d)
      = takeWhile (\<lambda>c. c \<noteq> CHR ''/'') (rev f)"
    by (rule takeWhile_tail) simp
  also have "\<dots> = rev f" using f by (auto simp: takeWhile_eq_all_conv)
  finally show ?thesis by (simp add: basename_def)
qed

lemma write_file_content:
  "write_file path data w = (Inr u, w') \<Longrightarrow> files w' path = Some data"
  by (auto simp: write_file_def split: if_splits)

text \<open>
  C3. The report is the fixed header followed by one row for every path of the
  list, in the order of the list. The row of a path is built from its basename:
  the size label is the part of the basename after its last \<open>-\<close> and before the
  first \<open>.\<close> that follows (for a name \<open>stem-label.ext\<close> this is \<open>label\<close>), the
  image URL is the base URL followed by the basename and \<open>?raw=true\<close>, and the link
  is the base URL followed by the basename. When the write succeeds, this text is
  the content of \<open>README.md\<close> in the given directory.
\<close>

theorem readme_one_row_per_file:
  "readme_content image_files =
     readme_header @ concat (map (\<lambda>p. spec_row (basename p) (spec_size_label (basename p))
                                         (base_url @ basename p)) image_files)
   \<and> length (map (\<lambda>p. spec_row (basename p) (spec_size_label (basename p))
                                         (base_url @ basename p)) image_files)
       = length image_files
   \<and> (CHR ''-'' \<notin> set label \<and> CHR ''.'' \<notin> set label \<and> CHR ''-'' \<notin> set ext
        \<and> CHR ''/'' \<notin> set (stem @ ''-'' @ label @ ''.'' @ ext) \<longrightarrow>
        basename (d @ ''/'' @ stem @ ''-'' @ label @ ''.'' @ ext)
          = stem @ ''-'' @ label @ ''.'' @ ext
        \<and> spec_size_label (stem @ ''-'' @ label @ ''.'' @ ext) = label)
   \<and> (write_readme directory image_files w = (Inr (), w') \<longrightarrow>
        files w' (path_join directory ''README.md'') = Some (readme_content image_files))"
proof (intro conjI impI)
  have "map readme_row image_files =
      map (\<lambda>p. spec_row (basename p) (spec_size_label (basename p)) (base_url @ basename p))
        image_files"
    by (simp add: readme_row_spec)
  then show "readme_content image_files =
     readme_header @ concat (map (\<lambda>p. spec_row (basename p) (spec_size_label (basename p))
                                         (base_url @ basename p)) image_files)"
    by (simp only: readme_content_def readme_loop_eq)
next
  show "length (map (\<lambda>p. spec_row (basename p) (spec_size_label (basename p))
                                         (base_url @ basename p)) image_files)
       = length image_files"
    by simp
next
  assume a: "CHR ''-'' \<notin> set label \<and> CHR ''.'' \<notin> set label \<and> CHR ''-'' \<notin> set ext
        \<and> CHR ''/'' \<notin> set (stem @ ''-'' @ label @ ''.'' @ ext)"
  then have "basename (d @ CHR ''/'' # (stem @ ''-'' @ label @ ''.'' @ ext))
          = stem @ ''-'' @ label @ ''.'' @ ext"
    by (intro basename_file_in) simp
  then show "basename (d @ ''/'' @ stem @ ''-'' @ label @ ''.'' @ ext)
          = stem @ ''-'' @ label @ ''.'' @ ext"
    by simp
  from a show "spec_size_label (stem @ ''-'' @ label @ ''.'' @ ext) = label"
    by (intro spec_size_label_suffix) simp_all
next
  assume "write_readme directory image_files w = (Inr (), w')"
  then show "files w' (path_join directory ''README.md'') = Some (readme_content image_files)"
    by (simp add: write_readme_def Let_def write_file_content)
qed

theorem readme_one_row_per_file_witness:
  "CHR ''-'' \<notin> set ''1024'' \<and> CHR ''.'' \<notin> set ''1024'' \<and> CHR ''-'' \<notin> set ''png''
   \<and> CHR ''/'' \<notin> set (''white'' @ ''-'' @ ''1024'' @ ''.'' @ ''png'')
   \<and> basename ''logo/standar/white-1024.png'' = ''white-1024.png''
   \<and> spec_size_label ''white-1024.png'' = ''1024''
   \<and> readme_content [''logo/standar/white-1024.png''] =
       readme_header @ spec_row ''white-1024.png'' ''1024'' (base_url @ ''white-1024.png'')
   \<and> write_readme ''./'' [''logo/standar/white-1024.png''] example_world =
       (Inr (), example_world\<lparr>files := (files example_world)
            (''./README.md'' \<mapsto> readme_content [''logo/standar/white-1024.png''])\<rparr>)
   \<and> files (example_world\<lparr>files := (files example_world)
            (''./README.md'' \<mapsto> readme_content [''logo/standar/white-1024.png''])\<rparr>)
         (path_join ''./'' ''README.md'')
       = Some (readme_content [''logo/standar/white-1024.png''])"
proof -
  let ?p = "''logo/standar/white-1024.png''"
  let ?w' = "example_world\<lparr>files := (files example_world)
            (''./README.md'' \<mapsto> readme_content [?p])\<rparr>"
  have h1: "CHR ''-'' \<notin> set ''1024'' \<and> CHR ''.'' \<notin> set ''1024'' \<and> CHR ''-'' \<notin> set ''png''
      \<and> CHR ''/'' \<notin> set (''white'' @ ''-'' @ ''1024'' @ ''.'' @ ''png'')"
    by simp
  have h2: "write_readme ''./'' [?p] example_world = (Inr (), ?w')"
    by (simp add: write_readme_def write_file_def path_join_def dirname_def rstrip_slash_def
        parent_dirs_def standing_directory_def example_world_def Let_def)
  note inst = readme_one_row_per_file [where image_files = "[?p]" and label = "''1024''"
      and ext = "''png''" and stem = "''white''" and d = "''logo/standar''"
      and directory = "''./''" and w = example_world and w' = ?w']
  from inst h1 have b: "basename ?p = ''white-1024.png''"
    and l: "spec_size_label ''white-1024.png'' = ''1024''"
    by simp_all
  from inst have "readme_content [?p] =
      readme_header @ spec_row (basename ?p) (spec_size_label (basename ?p))
        (base_url @ basename ?p)"
    by simp
  then have c: "readme_content [?p] =
      readme_header @ spec_row ''white-1024.png'' ''1024'' (base_url @ ''white-1024.png'')"
    by (simp only: b l)
  from inst h2 have f: "files ?w' (path_join ''./'' ''README.md'') = Some (readme_content [?p])"
    by blast
  from h1 b l c h2 f show ?thesis by (intro conjI) simp_all
qed

section \<open>The batch runs to its end\<close>

lemma str_nat_digits: "set (str_nat n) \<subseteq> set ''0123456789''"
proof (induction n rule: str_nat.induct)
  case (1 n)
  have d: "''0123456789'' ! k \<in> set ''0123456789''" if "k < 10" for k
    using that by (intro nth_mem) simp
  show ?case
  proof (cases "n < 10")
    case True
    with d [of n] show ?thesis by (subst str_nat.simps) simp
  next
    case False
    with 1 d [of "n mod 10"] show ?thesis by (subst str_nat.simps) simp
  qed
qed

lemma str_int_no_slash: "CHR ''/'' \<notin> set (str_int i)"
proof -
  have "CHR ''/'' \<notin> set (str_nat n)" for n
    using str_nat_digits [of n] by auto
  then show ?thesis by (simp add: str_int_def)
qed

lemma dirname_file_in:
  assumes "CHR ''/'' \<notin> set f"
  shows "dirname (d @ CHR ''/'' # f) = dirname (d @ ''/'')"
proof -
  have "dropWhile (\<lambda>c. c \<noteq> CHR ''/'') (rev f @ CHR ''/'' # rev d) = CHR ''/'' # rev d"
    using assms by (subst dropWhile_append2) auto
  then show ?thesis by (simp add: dirname_def)
qed

lemma path_prefixes_no_slash:
  "CHR ''/'' \<notin> set f \<Longrightarrow>
   path_prefixes acc f = (if acc @ f \<noteq> [] \<and> last (acc @ f) \<noteq> CHR ''/'' then [acc @ f] else [])"
  by (induction f arbitrary: acc) auto

lemma parent_dirs_logo:
  assumes d: "d = ''logo/favicon'' \<or> d = ''logo/standar''"
    and f: "CHR ''/'' \<notin> set f"
  shows "parent_dirs (d @ CHR ''/'' # f @ ''.png'') = [''logo'', d]"
proof -
  have f2: "CHR ''/'' \<notin> set (f @ ''.png'')" using f by simp
  from d show ?thesis
  proof
    assume "d = ''logo/favicon''"
    then show ?thesis
      by (simp add: parent_dirs_def path_prefixes_no_slash [OF f2])
  next
    assume "d = ''logo/standar''"
    then show ?thesis
      by (simp add: parent_dirs_def path_prefixes_no_slash [OF f2])
  qed
qed

lemma save_logo_ok:
  assumes u: "unobstructed w" and a: "document_available gen w"
    and r: "always_rasterizes svg2png"
    and d: "d = ''logo/favicon'' \<or> d = ''logo/standar''"
    and f: "CHR ''/'' \<notin> set f"
  shows "\<exists>gen' w'. save svg2png gen fg (d @ CHR ''/'' # f) width ''png'' None w
            = (Inr (), gen', w')
          \<and> unobstructed w' \<and> document_available gen' w'"
proof -
  define P where "P = d @ CHR ''/'' # f @ ''.png''"
  from u have u1: "files w ''logo'' = None" and u2: "files w ''logo/favicon'' = None"
    and u3: "files w ''logo/standar'' = None" and u4: "\<forall>p \<in> dirs w. \<not> suffix ''.png'' p"
    by (simp_all add: unobstructed_def)
  have ud: "files w d = None" using d u2 u3 by blast
  have dd: "dirname (d @ ''/'') = d"
    using d by (auto simp: dirname_def rstrip_slash_def)
  have dn: "dirname (d @ CHR ''/'' # f) = d"
    using dirname_file_in [OF f, of d] dd by simp
  have f2: "CHR ''/'' \<notin> set (f @ ''.png'')" using f by simp
  have dnP: "dirname P = d"
    using dirname_file_in [OF f2, of d] dd by (simp add: P_def)
  have pdP: "parent_dirs P = [''logo'', d]"
    unfolding P_def by (rule parent_dirs_logo [OF d f])
  have sufP: "suffix ''.png'' P"
    unfolding P_def by (rule suffixI [of _ "d @ CHR ''/'' # f"]) simp
  have nsuf: "\<not> suffix ''.png'' ''logo''" "\<not> suffix ''.png'' ''logo/favicon''"
    "\<not> suffix ''.png'' ''logo/standar''"
    by (simp_all add: suffix_to_prefix)
  have nsd: "\<not> suffix ''.png'' d" using d nsuf by blast
  have neP: "P \<noteq> ''logo''" "P \<noteq> ''logo/favicon''" "P \<noteq> ''logo/standar''" "P \<noteq> d"
    using sufP nsuf nsd by blast+
  have pp: "path_prefixes [] d = [''logo'', d]" using d by auto
  let ?w1 = "w\<lparr>dirs := insert ''logo'' (insert d (dirs w))\<rparr>"
  have so: "str_or d d = d" by (simp add: str_or_def)
  have dne: "d \<noteq> []" using d by auto
  have m: "makedirs_exist_ok (str_or (dirname (d @ CHR ''/'' # f)) (dirname (d @ CHR ''/'' # f))) w
      = (Inr (), ?w1)"
    by (simp add: dn so makedirs_exist_ok_def pp u1 ud dne)
  obtain t gen2 w2 where g: "get_svg gen ?w1 = (Inr t, gen2, w2)"
    and g2: "svg_cache gen2 \<noteq> None" and w2: "files w2 = files w" "dirs w2 = dirs ?w1"
  proof (cases "svg_cache gen")
    case None
    with a obtain bytes where s1: "svg_src gen \<notin> dirs w"
      and s2: "\<not> list_ex (\<lambda>p. files w p \<noteq> None) (parent_dirs (svg_src gen))"
      and s3: "files w (svg_src gen) = Some bytes" and s4: "utf8_valid bytes"
      by (auto simp: document_available_def)
    from s3 u1 ud have "svg_src gen \<noteq> ''logo''" "svg_src gen \<noteq> d" by auto
    with s1 have s5: "svg_src gen \<notin> dirs ?w1" by simp
    have "read_text (svg_src gen) ?w1 =
        (Inr (universal_newlines bytes), ?w1\<lparr>read_log := read_log ?w1 @ [svg_src gen]\<rparr>)"
      using s2 s3 s4 s5 by (simp add: read_text_def)
    with None have "get_svg gen ?w1 = (Inr (universal_newlines bytes),
        gen\<lparr>svg_cache := Some (universal_newlines bytes)\<rparr>,
        ?w1\<lparr>read_log := read_log ?w1 @ [svg_src gen]\<rparr>)"
      by (simp add: get_svg_def)
    then show ?thesis by (rule that) simp_all
  next
    case (Some t)
    then have "get_svg gen ?w1 = (Inr t, gen, ?w1)" by (simp add: get_svg_def)
    moreover from Some have "svg_cache gen \<noteq> None" by simp
    ultimately show ?thesis by (rule that) simp_all
  qed
  from r obtain png where png:
    "svg2png (py_replace t default_original_color fg) width 1 None = Inr png"
    unfolding always_rasterizes_def by blast
  have dw2: "dirs w2 = insert ''logo'' (insert d (dirs w))" using w2(2) by simp
  have notdir: "P \<notin> dirs w2"
  proof
    assume "P \<in> dirs w2"
    with dw2 neP have "P \<in> dirs w" by simp
    with u4 sufP show False by blast
  qed
  have din: "d \<in> dirs w2" using dw2 by simp
  have nopar: "\<not> list_ex (\<lambda>p. files w2 p \<noteq> None) (parent_dirs P)"
    by (simp add: pdP w2(1) u1 ud)
  let ?w3 = "w2\<lparr>files := (files w2)(P \<mapsto> png)\<rparr>"
  have wr: "write_file P png w2 = (Inr (), ?w3)"
    using nopar by (simp add: write_file_def dnP notdir din)
  have Peq: "(d @ CHR ''/'' # f) @ ''.'' @ ''png'' = P" by (simp add: P_def)
  have rc: "replace_colors gen fg default_original_color ?w1
      = (Inr (py_replace t default_original_color fg), gen2, w2)"
    by (simp add: replace_colors_def g)
  have s: "save svg2png gen fg (d @ CHR ''/'' # f) width ''png'' None w = (Inr (), gen2, ?w3)"
    unfolding save_def m Peq Let_def by (simp add: rc png wr)
  have "unobstructed ?w3"
    unfolding unobstructed_def
  proof (intro conjI ballI)
    show "files ?w3 ''logo'' = None" using neP(1) u1 w2(1) by simp
    show "files ?w3 ''logo/favicon'' = None" using neP(2) u2 w2(1) by simp
    show "files ?w3 ''logo/standar'' = None" using neP(3) u3 w2(1) by simp
    fix p assume "p \<in> dirs ?w3"
    then have "p = ''logo'' \<or> p = d \<or> p \<in> dirs w" using dw2 by simp
    with nsuf(1) nsd u4 show "\<not> suffix ''.png'' p" by blast
  qed
  moreover have "document_available gen2 ?w3"
    using g2 by (simp add: document_available_def)
  ultimately show ?thesis using s by blast
qed

lemma logo_body_ok:
  assumes u: "unobstructed w" and a: "document_available gen w"
    and r: "always_rasterizes svg2png" and ct: "CHR ''/'' \<notin> set color_type"
  shows "\<exists>generated' gen' w'.
           logo_body svg2png color color_type sz generated_files gen w
             = (Inr generated', gen', w')
           \<and> unobstructed w' \<and> document_available gen' w'"
proof -
  consider (favicon) "sz \<le> 128" "color = ''#0063BE''" | (standard) "sz \<ge> 512"
    | (none) "\<not> (sz \<le> 128 \<and> color = ''#0063BE'')" "\<not> sz \<ge> 512"
    by linarith
  then show ?thesis
  proof cases
    case favicon
    have f: "CHR ''/'' \<notin> set (''favicon-'' @ str_int sz)"
      using str_int_no_slash [of sz] by simp
    from save_logo_ok [OF u a r _ f, of "''logo/favicon''" color sz]
    obtain gen' w' where
      "save svg2png gen color (''logo/favicon'' @ CHR ''/'' # ''favicon-'' @ str_int sz) sz
         ''png'' None w = (Inr (), gen', w')"
      and "unobstructed w'" and "document_available gen' w'"
      by auto
    with favicon show ?thesis by (simp add: logo_body_def)
  next
    case standard
    have f: "CHR ''/'' \<notin> set (color_type @ ''-'' @ str_int sz)"
      using str_int_no_slash [of sz] ct by simp
    from save_logo_ok [OF u a r _ f, of "''logo/standar''" color sz]
    obtain gen' w' where
      "save svg2png gen color (''logo/standar'' @ CHR ''/'' # color_type @ ''-'' @ str_int sz) sz
         ''png'' None w = (Inr (), gen', w')"
      and "unobstructed w'" and "document_available gen' w'"
      by auto
    with standard show ?thesis by (simp add: logo_body_def)
  next
    case none
    then have "logo_body svg2png color color_type sz generated_files gen w
        = (Inr generated_files, gen, w)"
      by (auto simp: logo_body_def)
    with u a show ?thesis by simp
  qed
qed

lemma size_loop_ok:
  assumes r: "always_rasterizes svg2png" and ct: "CHR ''/'' \<notin> set color_type"
  shows "unobstructed w \<Longrightarrow> document_available gen w \<Longrightarrow>
         \<exists>generated' gen' w'.
           size_loop svg2png color color_type szs generated_files gen w
             = (Inr generated', gen', w')
           \<and> unobstructed w' \<and> document_available gen' w'"
proof (induction szs arbitrary: generated_files gen w)
  case Nil
  then show ?case by simp
next
  case (Cons sz szs)
  from logo_body_ok [OF Cons.prems r ct, of color sz generated_files]
  obtain g1 gen1 w1 where b: "logo_body svg2png color color_type sz generated_files gen w
             = (Inr g1, gen1, w1)"
    and u1: "unobstructed w1" and a1: "document_available gen1 w1"
    by blast
  from Cons.IH [OF u1 a1, of g1] b show ?case by simp
qed

lemma color_loop_ok:
  assumes r: "always_rasterizes svg2png"
    and m: "\<forall>c \<in> set cs. \<exists>name. mapping c = Some name \<and> CHR ''/'' \<notin> set name"
  shows "unobstructed w \<Longrightarrow> document_available gen w \<Longrightarrow>
         \<exists>generated' gen' w'.
           color_loop svg2png mapping cs szs generated_files gen w
             = (Inr generated', gen', w')
           \<and> unobstructed w' \<and> document_available gen' w'"
  using m
proof (induction cs arbitrary: generated_files gen w)
  case Nil
  then show ?case by simp
next
  case (Cons c cs)
  from Cons.prems(3) obtain name where n: "mapping c = Some name"
    and ns: "CHR ''/'' \<notin> set name"
    by auto
  from size_loop_ok [OF r ns Cons.prems(1) Cons.prems(2), of c szs generated_files]
  obtain g1 gen1 w1 where b: "size_loop svg2png c name szs generated_files gen w
             = (Inr g1, gen1, w1)"
    and u1: "unobstructed w1" and a1: "document_available gen1 w1"
    by blast
  from Cons.prems(3) have "\<forall>c \<in> set cs. \<exists>name. mapping c = Some name \<and> CHR ''/'' \<notin> set name"
    by simp
  from Cons.IH [OF u1 a1 this, of g1] b n show ?case by simp
qed

lemma colors_mapped:
  "\<forall>c \<in> set colors. \<exists>name. COLOR_MAPPING c = Some name \<and> CHR ''/'' \<notin> set name"
  by (simp add: colors_def COLOR_MAPPING_def)

text \<open>
  The batch returns its list whenever the document can be loaded, the rasterizer
  accepts it and nothing is in the way of the output files.
\<close>

lemma generate_logos_ok:
  assumes "always_rasterizes svg2png" and "unobstructed w" and "document_available gen w"
  shows "\<exists>generated_files gen' w'.
           generate_logos svg2png gen w = (Inr generated_files, gen', w')"
  using color_loop_ok [OF assms(1) colors_mapped assms(2) assms(3), of sizes "[]"]
  by (auto simp: generate_logos_def)

lemma example_ok:
  "always_rasterizes example_svg2png" "unobstructed example_world"
  "document_available example_gen example_world"
  by (simp_all add: always_rasterizes_def example_svg2png_def unobstructed_def
      example_world_def document_available_def example_gen_def init_GenImages_def
      suffix_to_prefix parent_dirs_def utf8_valid_def example_text_def)

section \<open>The paths the batch returns\<close>

lemma logo_body_paths:
  assumes "logo_body svg2png color color_type sz generated_files gen w
             = (Inr generated', gen', w')"
  shows "generated' = generated_files @ pair_paths color color_type sz"
  using assms
  by (auto simp: logo_body_def pair_paths_def Let_def
      split: if_splits prod.splits sum.splits)

lemma size_loop_paths:
  "size_loop svg2png color color_type szs generated_files gen w = (Inr generated', gen', w')
   \<Longrightarrow> generated' = generated_files @ concat (map (pair_paths color color_type) szs)"
proof (induction szs arbitrary: generated_files gen w)
  case Nil
  then show ?case by simp
next
  case (Cons sz szs)
  obtain r1 gen1 w1 where b: "logo_body svg2png color color_type sz generated_files gen w
      = (r1, gen1, w1)"
    by (cases "logo_body svg2png color color_type sz generated_files gen w") auto
  show ?case
  proof (cases r1)
    case (Inl e)
    with b Cons.prems show ?thesis by simp
  next
    case (Inr g1)
    with b have "g1 = generated_files @ pair_paths color color_type sz"
      by (simp add: logo_body_paths)
    moreover from b Inr Cons.prems
    have "size_loop svg2png color color_type szs g1 gen1 w1 = (Inr generated', gen', w')"
      by simp
    then have "generated' = g1 @ concat (map (pair_paths color color_type) szs)"
      by (rule Cons.IH)
    ultimately show ?thesis by simp
  qed
qed

lemma color_loop_paths:
  "color_loop svg2png mapping cs szs generated_files gen w = (Inr generated', gen', w')
   \<Longrightarrow> (\<forall>c \<in> set cs. mapping c \<noteq> None)
     \<and> generated' = generated_files
         @ concat (map (\<lambda>c. concat (map (pair_paths c (the (mapping c))) szs)) cs)"
proof (induction cs arbitrary: generated_files gen w)
  case Nil
  then show ?case by simp
next
  case (Cons c cs)
  show ?case
  proof (cases "mapping c")
    case None
    with Cons.prems show ?thesis by simp
  next
    case (Some name)
    obtain r1 gen1 w1 where b: "size_loop svg2png c name szs generated_files gen w
        = (r1, gen1, w1)"
      by (cases "size_loop svg2png c name szs generated_files gen w") auto
    show ?thesis
    proof (cases r1)
      case (Inl e)
      with b Some Cons.prems show ?thesis by simp
    next
      case (Inr g1)
      with b have g1: "g1 = generated_files @ concat (map (pair_paths c name) szs)"
        by (simp add: size_loop_paths)
      from b Inr Some Cons.prems
      have "color_loop svg2png mapping cs szs g1 gen1 w1 = (Inr generated', gen', w')"
        by simp
      from Cons.IH [OF this] g1 Some show ?thesis by simp
    qed
  qed
qed


lemma emitted_eval:
  "concat (map (\<lambda>c. concat (map (pair_paths c (the (COLOR_MAPPING c))) sizes)) colors) =
   [''logo/standar/dark-512.png'', ''logo/standar/dark-1024.png'',
    ''logo/standar/dark-2048.png'', ''logo/standar/light-512.png'',
    ''logo/standar/light-1024.png'', ''logo/standar/light-2048.png'',
    ''logo/standar/white-512.png'', ''logo/standar/white-1024.png'',
    ''logo/standar/white-2048.png'', ''logo/standar/black-512.png'',
    ''logo/standar/black-1024.png'', ''logo/standar/black-2048.png'',
    ''logo/favicon/favicon-16.png'', ''logo/favicon/favicon-32.png'',
    ''logo/favicon/favicon-64.png'', ''logo/favicon/favicon-100.png'',
    ''logo/favicon/favicon-128.png'', ''logo/standar/primary-512.png'',
    ''logo/standar/primary-1024.png'', ''logo/standar/primary-2048.png'',
    ''logo/standar/secondary-512.png'', ''logo/standar/secondary-1024.png'',
    ''logo/standar/secondary-2048.png'']"
  by (simp add: colors_def sizes_def COLOR_MAPPING_def pair_paths_def str_int_def
      str_nat.simps)

lemma emissions_eval:
  "emissions =
   [(0, 5, ''logo/standar/dark-512.png''), (0, 6, ''logo/standar/dark-1024.png''),
    (0, 7, ''logo/standar/dark-2048.png''), (1, 5, ''logo/standar/light-512.png''),
    (1, 6, ''logo/standar/light-1024.png''), (1, 7, ''logo/standar/light-2048.png''),
    (2, 5, ''logo/standar/white-512.png''), (2, 6, ''logo/standar/white-1024.png''),
    (2, 7, ''logo/standar/white-2048.png''), (3, 5, ''logo/standar/black-512.png''),
    (3, 6, ''logo/standar/black-1024.png''), (3, 7, ''logo/standar/black-2048.png''),
    (4, 0, ''logo/favicon/favicon-16.png''), (4, 1, ''logo/favicon/favicon-32.png''),
    (4, 2, ''logo/favicon/favicon-64.png''), (4, 3, ''logo/favicon/favicon-100.png''),
    (4, 4, ''logo/favicon/favicon-128.png''), (4, 5, ''logo/standar/primary-512.png''),
    (4, 6, ''logo/standar/primary-1024.png''), (4, 7, ''logo/standar/primary-2048.png''),
    (5, 5, ''logo/standar/secondary-512.png''), (5, 6, ''logo/standar/secondary-1024.png''),
    (5, 7, ''logo/standar/secondary-2048.png'')]"
  by (simp add: emissions_def colors_def sizes_def COLOR_MAPPING_def pair_paths_def
      str_int_def str_nat.simps)

lemma emissions_sorted: "sorted_wrt color_major emissions"
  by (simp add: emissions_eval color_major_def)

lemma generate_logos_paths:
  assumes "generate_logos svg2png gen w = (Inr generated_files, gen', w')"
  shows "generated_files =
     concat (map (\<lambda>c. concat (map (pair_paths c (the (COLOR_MAPPING c))) sizes)) colors)"
  using color_loop_paths [of svg2png COLOR_MAPPING colors sizes "[]" gen w generated_files gen' w']
    assms
  by (simp add: generate_logos_def)

lemma pair_paths_rule:
  "(''logo/favicon/favicon-'' @ str_int S @ ''.png'' \<in> set (pair_paths C name S)
      \<longleftrightarrow> S \<le> 128 \<and> C = ''#0063BE'')
   \<and> (''logo/standar/'' @ name @ ''-'' @ str_int S @ ''.png'' \<in> set (pair_paths C name S)
      \<longleftrightarrow> 512 \<le> S)
   \<and> (\<not> (S \<le> 128 \<and> C = ''#0063BE'') \<and> \<not> 512 \<le> S \<longrightarrow> pair_paths C name S = [])
   \<and> set (pair_paths C name S) \<subseteq>
        {''logo/favicon/favicon-'' @ str_int S @ ''.png'',
         ''logo/standar/'' @ name @ ''-'' @ str_int S @ ''.png''}"
  by (auto simp: pair_paths_def)

text \<open>
  C1. When the batch returns, its list is made of the paths appended pass by
  pass, for every color of \<open>colors\<close> and every size of \<open>sizes\<close>; one pass of the loop
  body for a color and a size appends exactly \<open>pair_paths\<close> of them. For every
  color of the list, with its name in the mapping, and every size of the list the
  pass appends the favicon path of the size iff the size is at most 128 and the
  color is \<open>#0063BE\<close>, it appends the standard path of the name and the size iff
  the size is at least 512, and it appends nothing else; a pair for which neither
  holds appends nothing. The list that results is spelled out.
\<close>

theorem generate_logos_inclusion:
  assumes "generate_logos svg2png gen w = (Inr generated_files, gen', w')"
  shows "generated_files =
       concat (map (\<lambda>C. concat (map (\<lambda>S. pair_paths C (the (COLOR_MAPPING C)) S) sizes)) colors)
     \<and> (logo_body svg2png C name S files0 gen0 w0 = (Inr files1, gen1, w1) \<longrightarrow>
          files1 = files0 @ pair_paths C name S)
     \<and> (\<forall>C \<in> set colors. \<forall>S \<in> set sizes. \<exists>name. COLOR_MAPPING C = Some name
          \<and> (''logo/favicon/favicon-'' @ str_int S @ ''.png'' \<in> set (pair_paths C name S)
               \<longleftrightarrow> S \<le> 128 \<and> C = ''#0063BE'')
          \<and> (''logo/standar/'' @ name @ ''-'' @ str_int S @ ''.png'' \<in> set (pair_paths C name S)
               \<longleftrightarrow> 512 \<le> S)
          \<and> (\<not> (S \<le> 128 \<and> C = ''#0063BE'') \<and> \<not> 512 \<le> S \<longrightarrow> pair_paths C name S = [])
          \<and> set (pair_paths C name S) \<subseteq>
               {''logo/favicon/favicon-'' @ str_int S @ ''.png'',
                ''logo/standar/'' @ name @ ''-'' @ str_int S @ ''.png''})
     \<and> generated_files =
     [''logo/standar/dark-512.png'', ''logo/standar/dark-1024.png'',
      ''logo/standar/dark-2048.png'', ''logo/standar/light-512.png'',
      ''logo/standar/light-1024.png'', ''logo/standar/light-2048.png'',
      ''logo/standar/white-512.png'', ''logo/standar/white-1024.png'',
      ''logo/standar/white-2048.png'', ''logo/standar/black-512.png'',
      ''logo/standar/black-1024.png'', ''logo/standar/black-2048.png'',
      ''logo/favicon/favicon-16.png'', ''logo/favicon/favicon-32.png'',
      ''logo/favicon/favicon-64.png'', ''logo/favicon/favicon-100.png'',
      ''logo/favicon/favicon-128.png'', ''logo/standar/primary-512.png'',
      ''logo/standar/primary-1024.png'', ''logo/standar/primary-2048.png'',
      ''logo/standar/secondary-512.png'', ''logo/standar/secondary-1024.png'',
      ''logo/standar/secondary-2048.png'']"
proof (intro conjI impI ballI)
  note c0 = generate_logos_paths [OF assms]
  show "generated_files =
       concat (map (\<lambda>C. concat (map (\<lambda>S. pair_paths C (the (COLOR_MAPPING C)) S) sizes)) colors)"
    by (rule c0)
  show "generated_files =
     [''logo/standar/dark-512.png'', ''logo/standar/dark-1024.png'',
      ''logo/standar/dark-2048.png'', ''logo/standar/light-512.png'',
      ''logo/standar/light-1024.png'', ''logo/standar/light-2048.png'',
      ''logo/standar/white-512.png'', ''logo/standar/white-1024.png'',
      ''logo/standar/white-2048.png'', ''logo/standar/black-512.png'',
      ''logo/standar/black-1024.png'', ''logo/standar/black-2048.png'',
      ''logo/favicon/favicon-16.png'', ''logo/favicon/favicon-32.png'',
      ''logo/favicon/favicon-64.png'', ''logo/favicon/favicon-100.png'',
      ''logo/favicon/favicon-128.png'', ''logo/standar/primary-512.png'',
      ''logo/standar/primary-1024.png'', ''logo/standar/primary-2048.png'',
      ''logo/standar/secondary-512.png'', ''logo/standar/secondary-1024.png'',
      ''logo/standar/secondary-2048.png'']"
    by (rule trans [OF c0 emitted_eval])
next
  assume "logo_body svg2png C name S files0 gen0 w0 = (Inr files1, gen1, w1)"
  then show "files1 = files0 @ pair_paths C name S" by (rule logo_body_paths)
next
  fix C S assume "C \<in> set colors" and "S \<in> set sizes"
  with colors_mapped obtain name where m: "COLOR_MAPPING C = Some name" by blast
  from m pair_paths_rule [of S C name]
  have "COLOR_MAPPING C = Some name
          \<and> (''logo/favicon/favicon-'' @ str_int S @ ''.png'' \<in> set (pair_paths C name S)
               \<longleftrightarrow> S \<le> 128 \<and> C = ''#0063BE'')
          \<and> (''logo/standar/'' @ name @ ''-'' @ str_int S @ ''.png'' \<in> set (pair_paths C name S)
               \<longleftrightarrow> 512 \<le> S)
          \<and> (\<not> (S \<le> 128 \<and> C = ''#0063BE'') \<and> \<not> 512 \<le> S \<longrightarrow> pair_paths C name S = [])
          \<and> set (pair_paths C name S) \<subseteq>
               {''logo/favicon/favicon-'' @ str_int S @ ''.png'',
                ''logo/standar/'' @ name @ ''-'' @ str_int S @ ''.png''}"
    by (rule conjI)
  note f = this
  show "\<exists>name. COLOR_MAPPING C = Some name
          \<and> (''logo/favicon/favicon-'' @ str_int S @ ''.png'' \<in> set (pair_paths C name S)
               \<longleftrightarrow> S \<le> 128 \<and> C = ''#0063BE'')
          \<and> (''logo/standar/'' @ name @ ''-'' @ str_int S @ ''.png'' \<in> set (pair_paths C name S)
               \<longleftrightarrow> 512 \<le> S)
          \<and> (\<not> (S \<le> 128 \<and> C = ''#0063BE'') \<and> \<not> 512 \<le> S \<longrightarrow> pair_paths C name S = [])
          \<and> set (pair_paths C name S) \<subseteq>
               {''logo/favicon/favicon-'' @ str_int S @ ''.png'',
                ''logo/standar/'' @ name @ ''-'' @ str_int S @ ''.png''}"
    by (rule exI [where x = name], rule f)
qed


theorem generate_logos_inclusion_witness:
  "fst (generate_logos example_svg2png example_gen example_world) = Inr
     [''logo/standar/dark-512.png'', ''logo/standar/dark-1024.png'',
      ''logo/standar/dark-2048.png'', ''logo/standar/light-512.png'',
      ''logo/standar/light-1024.png'', ''logo/standar/light-2048.png'',
      ''logo/standar/white-512.png'', ''logo/standar/white-1024.png'',
      ''logo/standar/white-2048.png'', ''logo/standar/black-512.png'',
      ''logo/standar/black-1024.png'', ''logo/standar/black-2048.png'',
      ''logo/favicon/favicon-16.png'', ''logo/favicon/favicon-32.png'',
      ''logo/favicon/favicon-64.png'', ''logo/favicon/favicon-100.png'',
      ''logo/favicon/favicon-128.png'', ''logo/standar/primary-512.png'',
      ''logo/standar/primary-1024.png'', ''logo/standar/primary-2048.png'',
      ''logo/standar/secondary-512.png'', ''logo/standar/secondary-1024.png'',
      ''logo/standar/secondary-2048.png'']
   \<and> ''#3E78B2'' \<in> set colors \<and> 64 \<in> set sizes
   \<and> COLOR_MAPPING ''#3E78B2'' = Some ''secondary''
   \<and> pair_paths ''#3E78B2'' ''secondary'' 64 = []"
proof -
  from generate_logos_ok [OF example_ok] obtain fs gen' w' where
    run: "generate_logos example_svg2png example_gen example_world = (Inr fs, gen', w')"
    by blast
  note inst = generate_logos_inclusion [OF run, where C = "''#3E78B2''" and name = "''secondary''"
      and S = 64]
  note last_part = inst [THEN conjunct2, THEN conjunct2, THEN conjunct2]
  note all_part = inst [THEN conjunct2, THEN conjunct2, THEN conjunct1]
  from run last_part
  have a: "fst (generate_logos example_svg2png example_gen example_world) = Inr
     [''logo/standar/dark-512.png'', ''logo/standar/dark-1024.png'',
      ''logo/standar/dark-2048.png'', ''logo/standar/light-512.png'',
      ''logo/standar/light-1024.png'', ''logo/standar/light-2048.png'',
      ''logo/standar/white-512.png'', ''logo/standar/white-1024.png'',
      ''logo/standar/white-2048.png'', ''logo/standar/black-512.png'',
      ''logo/standar/black-1024.png'', ''logo/standar/black-2048.png'',
      ''logo/favicon/favicon-16.png'', ''logo/favicon/favicon-32.png'',
      ''logo/favicon/favicon-64.png'', ''logo/favicon/favicon-100.png'',
      ''logo/favicon/favicon-128.png'', ''logo/standar/primary-512.png'',
      ''logo/standar/primary-1024.png'', ''logo/standar/primary-2048.png'',
      ''logo/standar/secondary-512.png'', ''logo/standar/secondary-1024.png'',
      ''logo/standar/secondary-2048.png'']"
    by simp
  have c: "''#3E78B2'' \<in> set colors" and s: "64 \<in> set sizes"
    and m: "COLOR_MAPPING ''#3E78B2'' = Some ''secondary''"
    by (simp_all add: colors_def sizes_def COLOR_MAPPING_def)
  from bspec [OF bspec [OF all_part c] s]
  obtain name where n: "COLOR_MAPPING ''#3E78B2'' = Some name"
    and e: "\<not> (64 \<le> (128::int) \<and> ''#3E78B2'' = ''#0063BE'') \<and> \<not> 512 \<le> (64::int)
       \<longrightarrow> pair_paths ''#3E78B2'' name 64 = []"
    by (elim exE conjE) (rule that)
  from n m have "name = ''secondary''" by simp
  with e have "pair_paths ''#3E78B2'' ''secondary'' 64 = []" by simp
  with a c s m show ?thesis by (intro conjI)
qed

text \<open>
  C2. When the batch returns, its list is the list of the emitted paths in
  color-major, size-minor order: taken with the positions of their color and
  their size, the paths are strictly ordered by color position first and size
  position second; the sizes are listed in increasing order, so an earlier size
  is a smaller one. The report then has its rows in the order of that list.
\<close>

theorem generate_logos_order:
  assumes "generate_logos svg2png gen w = (Inr generated_files, gen', w')"
  shows "generated_files = map (\<lambda>e. snd (snd e)) emissions
     \<and> sorted_wrt color_major emissions
     \<and> sorted_wrt (<) sizes \<and> distinct colors
     \<and> readme_content generated_files =
         readme_header @ concat (map readme_row generated_files)"
proof (intro conjI)
  from generate_logos_paths [OF assms]
  show "generated_files = map (\<lambda>e. snd (snd e)) emissions"
    by (simp add: emitted_eval emissions_eval)
  show "sorted_wrt color_major emissions" by (rule emissions_sorted)
  show "sorted_wrt (<) sizes" by (simp add: sizes_def)
  show "distinct colors" by (simp add: colors_def)
  show "readme_content generated_files =
         readme_header @ concat (map readme_row generated_files)"
    by (simp only: readme_content_def readme_loop_eq)
qed

theorem generate_logos_order_witness:
  "\<exists>fs. fst (generate_logos example_svg2png example_gen example_world) = Inr fs
      \<and> fs = map (\<lambda>e. snd (snd e)) emissions
      \<and> sorted_wrt color_major emissions
      \<and> readme_content fs = readme_header @ concat (map readme_row fs)"
proof -
  from generate_logos_ok [OF example_ok] obtain fs gen' w' where
    run: "generate_logos example_svg2png example_gen example_world = (Inr fs, gen', w')"
    by blast
  note inst = generate_logos_order [OF run]
  from run have a: "fst (generate_logos example_svg2png example_gen example_world) = Inr fs"
    by simp
  from inst have b: "fs = map (\<lambda>e. snd (snd e)) emissions"
    and c: "sorted_wrt color_major emissions"
    and d: "readme_content fs = readme_header @ concat (map readme_row fs)"
    by blast+
  from a b c d show ?thesis by blast
qed

text \<open>
  C10. No size is at most 128 and at least 512, so one pass of the loop body
  appends at most one path; the paths of the list the batch returns are pairwise
  distinct, 23 of them.
\<close>

theorem generate_logos_distinct:
  "\<not> (sz \<le> 128 \<and> 512 \<le> sz)
   \<and> length (pair_paths color color_type sz) \<le> 1
   \<and> (logo_body svg2png color color_type sz files0 gen0 w0 = (Inr files1, gen1, w1) \<longrightarrow>
        length files1 \<le> length files0 + 1)
   \<and> (generate_logos svg2png gen w = (Inr generated_files, gen', w') \<longrightarrow>
        distinct generated_files \<and> length generated_files = 23)"
proof (intro conjI impI)
  show "\<not> (sz \<le> 128 \<and> 512 \<le> sz)" by simp
  show l: "length (pair_paths color color_type sz) \<le> 1"
    by (simp add: pair_paths_def)
  {
    assume "logo_body svg2png color color_type sz files0 gen0 w0 = (Inr files1, gen1, w1)"
    then have "files1 = files0 @ pair_paths color color_type sz" by (rule logo_body_paths)
    with l show "length files1 \<le> length files0 + 1" by simp
  }
  {
    assume "generate_logos svg2png gen w = (Inr generated_files, gen', w')"
    from generate_logos_paths [OF this] have e: "generated_files =
     [''logo/standar/dark-512.png'', ''logo/standar/dark-1024.png'',
      ''logo/standar/dark-2048.png'', ''logo/standar/light-512.png'',
      ''logo/standar/light-1024.png'', ''logo/standar/light-2048.png'',
      ''logo/standar/white-512.png'', ''logo/standar/white-1024.png'',
      ''logo/standar/white-2048.png'', ''logo/standar/black-512.png'',
      ''logo/standar/black-1024.png'', ''logo/standar/black-2048.png'',
      ''logo/favicon/favicon-16.png'', ''logo/favicon/favicon-32.png'',
      ''logo/favicon/favicon-64.png'', ''logo/favicon/favicon-100.png'',
      ''logo/favicon/favicon-128.png'', ''logo/standar/primary-512.png'',
      ''logo/standar/primary-1024.png'', ''logo/standar/primary-2048.png'',
      ''logo/standar/secondary-512.png'', ''logo/standar/secondary-1024.png'',
      ''logo/standar/secondary-2048.png'']"
      by (simp only: emitted_eval)
    show "distinct generated_files" by (simp add: e)
    show "length generated_files = 23" by (simp add: e)
  }
qed

theorem generate_logos_distinct_witness:
  "\<exists>fs. fst (generate_logos example_svg2png example_gen example_world) = Inr fs
      \<and> distinct fs \<and> length fs = 23"
proof -
  from generate_logos_ok [OF example_ok] obtain fs gen' w' where
    run: "generate_logos example_svg2png example_gen example_world = (Inr fs, gen', w')"
    by blast
  note inst = generate_logos_distinct [where svg2png = example_svg2png and gen = example_gen
      and w = example_world and generated_files = fs and gen' = gen' and w' = w']
  from run have a: "fst (generate_logos example_svg2png example_gen example_world) = Inr fs"
    by simp
  from inst run have "distinct fs \<and> length fs = 23" by blast
  with a show ?thesis by blast
qed

end
